theory Spec2Isabelle
  imports Main "HOL-Library.Word"
begin

unbundle bit_operations_syntax

section \<open>Configuration constants of nuklear_gamepad.h\<close>

text \<open>The defaults of the three overridable macros.\<close>

definition NK_GAMEPAD_MAX :: int where
  "NK_GAMEPAD_MAX = 4"

definition NK_GAMEPAD_NAME_PREFIX :: string where
  "NK_GAMEPAD_NAME_PREFIX = ''Controller ''"

definition NK_GAMEPAD_NAME_SIZE :: nat where
  "NK_GAMEPAD_NAME_SIZE = 16"

section \<open>Buttons and their flags\<close>

text \<open>
  \<^verbatim>\<open>enum nk_gamepad_button\<close> is an integer type in C: the functions below receive the
  ordinal as an \<open>int\<close>, and nothing in the type keeps a caller from passing
  \<open>NK_GAMEPAD_BUTTON_INVALID\<close>, \<open>NK_GAMEPAD_BUTTON_LAST\<close> or any other integer.
\<close>

definition NK_GAMEPAD_BUTTON_INVALID :: int where "NK_GAMEPAD_BUTTON_INVALID = - 1"
definition NK_GAMEPAD_BUTTON_FIRST :: int where "NK_GAMEPAD_BUTTON_FIRST = 0"
definition NK_GAMEPAD_BUTTON_UP :: int where "NK_GAMEPAD_BUTTON_UP = 0"
definition NK_GAMEPAD_BUTTON_DOWN :: int where "NK_GAMEPAD_BUTTON_DOWN = 1"
definition NK_GAMEPAD_BUTTON_LEFT :: int where "NK_GAMEPAD_BUTTON_LEFT = 2"
definition NK_GAMEPAD_BUTTON_RIGHT :: int where "NK_GAMEPAD_BUTTON_RIGHT = 3"
definition NK_GAMEPAD_BUTTON_A :: int where "NK_GAMEPAD_BUTTON_A = 4"
definition NK_GAMEPAD_BUTTON_B :: int where "NK_GAMEPAD_BUTTON_B = 5"
definition NK_GAMEPAD_BUTTON_X :: int where "NK_GAMEPAD_BUTTON_X = 6"
definition NK_GAMEPAD_BUTTON_Y :: int where "NK_GAMEPAD_BUTTON_Y = 7"
definition NK_GAMEPAD_BUTTON_LB :: int where "NK_GAMEPAD_BUTTON_LB = 8"
definition NK_GAMEPAD_BUTTON_RB :: int where "NK_GAMEPAD_BUTTON_RB = 9"
definition NK_GAMEPAD_BUTTON_BACK :: int where "NK_GAMEPAD_BUTTON_BACK = 10"
definition NK_GAMEPAD_BUTTON_START :: int where "NK_GAMEPAD_BUTTON_START = 11"
definition NK_GAMEPAD_BUTTON_LAST :: int where "NK_GAMEPAD_BUTTON_LAST = 12"

text \<open>
  \<^verbatim>\<open>#define NK_GAMEPAD_BUTTON_FLAG(button) (1 << (button))\<close> shifts the \<open>int\<close> constant 1.
  With a 32-bit \<open>int\<close> the C standard defines the result only for \<open>0 \<le> button < 31\<close>;
  any other shift count is undefined behaviour, which the model returns as an error value
  instead of inventing a result. The masks are \<^verbatim>\<open>unsigned int\<close>, so a defined flag is
  used as a 32-bit word (and \<^verbatim>\<open>~flag\<close>, converted to \<^verbatim>\<open>unsigned int\<close>, is \<open>NOT\<close> on
  that word).
\<close>

datatype c_error = Undefined_Shift

definition NK_GAMEPAD_BUTTON_FLAG :: "int \<Rightarrow> c_error + 32 word" where
  "NK_GAMEPAD_BUTTON_FLAG button =
     (if 0 \<le> button \<and> button < 31 then Inr (push_bit (nat button) 1)
      else Inl Undefined_Shift)"

section \<open>The tracker\<close>

text \<open>
  Opaque pointers (\<^verbatim>\<open>void*\<close>, \<^verbatim>\<open>struct nk_context*\<close>) are addresses, 0 for \<^verbatim>\<open>NULL\<close>.
  \<open>name\<close> is the C string held in the \<^verbatim>\<open>char[NK_GAMEPAD_NAME_SIZE]\<close> buffer (the characters
  before the first NUL). \<open>available\<close> is the \<^verbatim>\<open>nk_bool\<close> flag read as a truth value: the code
  only compares it with \<^verbatim>\<open>nk_false\<close>.
\<close>

type_synonym pointer = nat

record nk_gamepad =
  available :: bool
  buttons :: "32 word"
  buttons_prev :: "32 word"
  name :: string
  data :: pointer

text \<open>
  The array \<^verbatim>\<open>gamepads[NK_GAMEPAD_MAX]\<close> is a function of the C index. The code reads
  and writes it only at indices \<open>0 \<le> i < NK_GAMEPAD_MAX\<close> (every access is behind a range
  check or inside a loop over that range), so the entries elsewhere carry no meaning.
\<close>

record nk_gamepads =
  gamepads :: "int \<Rightarrow> nk_gamepad"
  ctx :: pointer
  user_data :: pointer

text \<open>
  The backend hooks are macros that a backend header may define: \<^verbatim>\<open>NK_GAMEPAD_INIT\<close>,
  \<^verbatim>\<open>NK_GAMEPAD_UPDATE\<close> and \<^verbatim>\<open>NK_GAMEPAD_NAME\<close>. Each receives the tracker pointer and
  may read and write the tracker through it. They are parameters of the model;
  \<open>None\<close> stands for a macro that is not defined, where the \<^verbatim>\<open>#ifdef\<close> block is
  compiled out.
\<close>

type_synonym init_hook = "nk_gamepads \<Rightarrow> bool \<times> nk_gamepads"
type_synonym update_hook = "nk_gamepads \<Rightarrow> nk_gamepads"
type_synonym name_hook = "nk_gamepads \<Rightarrow> int \<Rightarrow> string option"

section \<open>Initialisation\<close>

text \<open>\<^verbatim>\<open>nk_zero\<close> of Nuklear clears every byte of the structure.\<close>

definition zero_gamepad :: nk_gamepad where
  "zero_gamepad =
     \<lparr>available = False, buttons = 0, buttons_prev = 0, name = [], data = 0\<rparr>"

definition nk_zero :: nk_gamepads where
  "nk_zero = \<lparr>gamepads = (\<lambda>_. zero_gamepad), ctx = 0, user_data = 0\<rparr>"

text \<open>\<^verbatim>\<open>nk_itoa\<close> of Nuklear writes a number in decimal, followed by a NUL.\<close>

fun decimal_digits :: "nat \<Rightarrow> string" where
  "decimal_digits n =
     (if n < 10 then [char_of (48 + n)]
      else decimal_digits (n div 10) @ [char_of (48 + n mod 10)])"

declare decimal_digits.simps [simp del]

definition nk_itoa :: "int \<Rightarrow> string" where
  "nk_itoa n =
     (if n < 0 then CHR ''-'' # decimal_digits (nat (- n)) else decimal_digits (nat n))"

text \<open>
  The first loop of \<^verbatim>\<open>nk_gamepad_init\<close>: mark slot \<open>i\<close> available and write its default
  name, the prefix followed by the one-based number of the slot.
\<close>

function init_defaults :: "int \<Rightarrow> nk_gamepads \<Rightarrow> nk_gamepads" where
  "init_defaults i g =
     (if i < NK_GAMEPAD_MAX then
        init_defaults (i + 1)
          (g\<lparr>gamepads := (gamepads g)
             (i := (gamepads g i)\<lparr>available := True,
                                  name := NK_GAMEPAD_NAME_PREFIX @ nk_itoa (i + 1)\<rparr>)\<rparr>)
      else g)"
  by pat_completeness auto
termination
  by (relation "measure (\<lambda>(i, g). nat (NK_GAMEPAD_MAX - i))") auto

declare init_defaults.simps [simp del]

text \<open>The last loop of \<^verbatim>\<open>nk_gamepad_init\<close>: \<^verbatim>\<open>buttons_prev = buttons\<close> for each slot.\<close>

function init_seed_prev :: "int \<Rightarrow> nk_gamepads \<Rightarrow> nk_gamepads" where
  "init_seed_prev i g =
     (if i < NK_GAMEPAD_MAX then
        init_seed_prev (i + 1)
          (g\<lparr>gamepads := (gamepads g)
             (i := (gamepads g i)\<lparr>buttons_prev := buttons (gamepads g i)\<rparr>)\<rparr>)
      else g)"
  by pat_completeness auto
termination
  by (relation "measure (\<lambda>(i, g). nat (NK_GAMEPAD_MAX - i))") auto

declare init_seed_prev.simps [simp del]

text \<open>
  \<^verbatim>\<open>nk_gamepad_init\<close>. The tracker pointer is \<open>None\<close> for \<^verbatim>\<open>NULL\<close>, else the structure it
  points to, whose previous contents are overwritten. The result is the returned flag and
  the structure afterwards.
\<close>

definition nk_gamepad_init ::
  "init_hook option \<Rightarrow> nk_gamepads option \<Rightarrow> pointer \<Rightarrow> pointer \<Rightarrow> bool \<times> nk_gamepads option"
where
  "nk_gamepad_init hook gp c u =
     (case gp of
        None \<Rightarrow> (False, None)
      | Some _ \<Rightarrow>
          (let g1 = init_defaults 0 (nk_zero\<lparr>ctx := c, user_data := u\<rparr>);
               (ok, g2) = (case hook of None \<Rightarrow> (True, g1) | Some h \<Rightarrow> h g1)
           in if \<not> ok then (False, Some g2)
              else (True, Some (init_seed_prev 0 g2))))"

section \<open>Writing and rotating the masks\<close>

text \<open>\<^verbatim>\<open>nk_gamepad_button\<close>: the guard first, then the flag is computed and applied.\<close>

definition nk_gamepad_button ::
  "nk_gamepads option \<Rightarrow> int \<Rightarrow> int \<Rightarrow> bool \<Rightarrow> c_error + nk_gamepads option"
where
  "nk_gamepad_button gp num button down =
     (case gp of
        None \<Rightarrow> Inr None
      | Some g \<Rightarrow>
          if num < 0 \<or> num \<ge> NK_GAMEPAD_MAX \<or> \<not> available (gamepads g num) then Inr (Some g)
          else
            (case NK_GAMEPAD_BUTTON_FLAG button of
               Inl e \<Rightarrow> Inl e
             | Inr flag \<Rightarrow>
                 Inr (Some (g\<lparr>gamepads := (gamepads g)
                   (num := (gamepads g num)
                      \<lparr>buttons := (if down then buttons (gamepads g num) OR flag
                                   else buttons (gamepads g num) AND NOT flag)\<rparr>)\<rparr>))))"

text \<open>The loop of \<^verbatim>\<open>nk_gamepad_update\<close>, from slot \<open>i\<close> on.\<close>

function update_slots :: "int \<Rightarrow> nk_gamepads \<Rightarrow> nk_gamepads" where
  "update_slots i g =
     (if i < NK_GAMEPAD_MAX then
        update_slots (i + 1)
          (if \<not> available (gamepads g i) then g
           else g\<lparr>gamepads := (gamepads g)
                  (i := (gamepads g i)\<lparr>buttons_prev := buttons (gamepads g i),
                                       buttons := 0\<rparr>)\<rparr>)
      else g)"
  by pat_completeness auto
termination
  by (relation "measure (\<lambda>(i, g). nat (NK_GAMEPAD_MAX - i))") auto

declare update_slots.simps [simp del]

text \<open>
  \<^verbatim>\<open>nk_gamepad_update\<close>: nothing on \<^verbatim>\<open>NULL\<close>; else the loop over all slots, and after it
  the backend's update hook, when there is one.
\<close>

definition run_update_hook :: "update_hook option \<Rightarrow> nk_gamepads \<Rightarrow> nk_gamepads" where
  "run_update_hook hook g = (case hook of None \<Rightarrow> g | Some h \<Rightarrow> h g)"

definition nk_gamepad_update :: "update_hook option \<Rightarrow> nk_gamepads option \<Rightarrow> nk_gamepads option" where
  "nk_gamepad_update hook gp =
     (case gp of
        None \<Rightarrow> None
      | Some g \<Rightarrow> Some (run_update_hook hook (update_slots 0 g)))"

section \<open>Queries\<close>

text \<open>
  Each of the three queries has a loop for a negative \<open>num\<close>: skip an unavailable slot,
  return true at the first slot that passes the test, false after the last slot. The
  test evaluates the flag, so it is undefined where the shift is; \<^verbatim>\<open>&&\<close> evaluates its
  left operand first, and that operand already holds the flag.
\<close>

function is_button_down_any :: "nk_gamepads \<Rightarrow> int \<Rightarrow> int \<Rightarrow> c_error + bool" where
  "is_button_down_any g button i =
     (if i < NK_GAMEPAD_MAX then
        (if \<not> available (gamepads g i) then is_button_down_any g button (i + 1)
         else
           (case NK_GAMEPAD_BUTTON_FLAG button of
              Inl e \<Rightarrow> Inl e
            | Inr flag \<Rightarrow>
                if buttons (gamepads g i) AND flag \<noteq> 0 then Inr True
                else is_button_down_any g button (i + 1)))
      else Inr False)"
  by pat_completeness auto
termination
  by (relation "measure (\<lambda>(g, button, i). nat (NK_GAMEPAD_MAX - i))") auto

declare is_button_down_any.simps [simp del]

definition nk_gamepad_is_button_down :: "nk_gamepads option \<Rightarrow> int \<Rightarrow> int \<Rightarrow> c_error + bool" where
  "nk_gamepad_is_button_down gp num button =
     (case gp of
        None \<Rightarrow> Inr False
      | Some g \<Rightarrow>
          if num < 0 then is_button_down_any g button 0
          else if num \<ge> NK_GAMEPAD_MAX \<or> \<not> available (gamepads g num) then Inr False
          else
            (case NK_GAMEPAD_BUTTON_FLAG button of
               Inl e \<Rightarrow> Inl e
             | Inr flag \<Rightarrow> Inr (buttons (gamepads g num) AND flag \<noteq> 0)))"

function is_button_pressed_any :: "nk_gamepads \<Rightarrow> int \<Rightarrow> int \<Rightarrow> c_error + bool" where
  "is_button_pressed_any g button i =
     (if i < NK_GAMEPAD_MAX then
        (if \<not> available (gamepads g i) then is_button_pressed_any g button (i + 1)
         else
           (case NK_GAMEPAD_BUTTON_FLAG button of
              Inl e \<Rightarrow> Inl e
            | Inr flag \<Rightarrow>
                if buttons_prev (gamepads g i) AND flag = 0 \<and>
                   buttons (gamepads g i) AND flag \<noteq> 0
                then Inr True
                else is_button_pressed_any g button (i + 1)))
      else Inr False)"
  by pat_completeness auto
termination
  by (relation "measure (\<lambda>(g, button, i). nat (NK_GAMEPAD_MAX - i))") auto

declare is_button_pressed_any.simps [simp del]

definition nk_gamepad_is_button_pressed :: "nk_gamepads option \<Rightarrow> int \<Rightarrow> int \<Rightarrow> c_error + bool" where
  "nk_gamepad_is_button_pressed gp num button =
     (case gp of
        None \<Rightarrow> Inr False
      | Some g \<Rightarrow>
          if num < 0 then is_button_pressed_any g button 0
          else if num \<ge> NK_GAMEPAD_MAX \<or> \<not> available (gamepads g num) then Inr False
          else
            (case NK_GAMEPAD_BUTTON_FLAG button of
               Inl e \<Rightarrow> Inl e
             | Inr flag \<Rightarrow>
                 Inr (buttons_prev (gamepads g num) AND flag = 0 \<and>
                      buttons (gamepads g num) AND flag \<noteq> 0)))"

function is_button_released_any :: "nk_gamepads \<Rightarrow> int \<Rightarrow> int \<Rightarrow> c_error + bool" where
  "is_button_released_any g button i =
     (if i < NK_GAMEPAD_MAX then
        (if \<not> available (gamepads g i) then is_button_released_any g button (i + 1)
         else
           (case NK_GAMEPAD_BUTTON_FLAG button of
              Inl e \<Rightarrow> Inl e
            | Inr flag \<Rightarrow>
                if buttons (gamepads g i) AND flag = 0 \<and>
                   buttons_prev (gamepads g i) AND flag \<noteq> 0
                then Inr True
                else is_button_released_any g button (i + 1)))
      else Inr False)"
  by pat_completeness auto
termination
  by (relation "measure (\<lambda>(g, button, i). nat (NK_GAMEPAD_MAX - i))") auto

declare is_button_released_any.simps [simp del]

definition nk_gamepad_is_button_released :: "nk_gamepads option \<Rightarrow> int \<Rightarrow> int \<Rightarrow> c_error + bool" where
  "nk_gamepad_is_button_released gp num button =
     (case gp of
        None \<Rightarrow> Inr False
      | Some g \<Rightarrow>
          if num < 0 then is_button_released_any g button 0
          else if num \<ge> NK_GAMEPAD_MAX \<or> \<not> available (gamepads g num) then Inr False
          else
            (case NK_GAMEPAD_BUTTON_FLAG button of
               Inl e \<Rightarrow> Inl e
             | Inr flag \<Rightarrow>
                 Inr (buttons (gamepads g num) AND flag = 0 \<and>
                      buttons_prev (gamepads g num) AND flag \<noteq> 0)))"

text \<open>\<^verbatim>\<open>nk_gamepad_name\<close>; a \<^verbatim>\<open>NULL\<close> result is \<open>None\<close>.\<close>

definition nk_gamepad_name :: "name_hook option \<Rightarrow> nk_gamepads option \<Rightarrow> int \<Rightarrow> string option" where
  "nk_gamepad_name hook gp num =
     (case gp of
        None \<Rightarrow> None
      | Some g \<Rightarrow>
          if num < 0 \<or> num \<ge> NK_GAMEPAD_MAX \<or> \<not> available (gamepads g num) then None
          else (case hook of None \<Rightarrow> Some (name (gamepads g num)) | Some h \<Rightarrow> h g num))"

text \<open>
  \<^verbatim>\<open>nk_gamepad_any_button_pressed\<close>. An output pointer is \<open>None\<close> for \<^verbatim>\<open>NULL\<close>, else the
  value of the cell it points to; the result carries the returned flag and the two cells
  afterwards. \<open>write_out\<close> is \<^verbatim>\<open>if (out != NULL) *out = v\<close>.
\<close>

definition write_out :: "'a option \<Rightarrow> 'a \<Rightarrow> 'a option" where
  "write_out out v = (case out of None \<Rightarrow> None | Some _ \<Rightarrow> Some v)"

text \<open>
  The loop over the buttons of gamepad \<open>num\<close>, from ordinal \<open>i\<close> on. The source has it
  twice with the same body: inside the loop over all gamepads, and for one given gamepad.
\<close>

function scan_buttons ::
  "nk_gamepads option \<Rightarrow> int \<Rightarrow> int \<Rightarrow> int option \<Rightarrow> int option
     \<Rightarrow> c_error + bool \<times> int option \<times> int option"
where
  "scan_buttons gp num i out_num out_button =
     (if i < NK_GAMEPAD_BUTTON_LAST then
        (case nk_gamepad_is_button_pressed gp num i of
           Inl e \<Rightarrow> Inl e
         | Inr True \<Rightarrow> Inr (True, write_out out_num num, write_out out_button i)
         | Inr False \<Rightarrow> scan_buttons gp num (i + 1) out_num out_button)
      else Inr (False, out_num, out_button))"
  by pat_completeness auto
termination
  by (relation "measure (\<lambda>(gp, num, i, out_num, out_button). nat (NK_GAMEPAD_BUTTON_LAST - i))")
    auto

declare scan_buttons.simps [simp del]

text \<open>The loop over all gamepads, from \<open>num\<close> on; it goes on when the inner loop finds nothing.\<close>

function scan_gamepads ::
  "nk_gamepads option \<Rightarrow> int \<Rightarrow> int option \<Rightarrow> int option
     \<Rightarrow> c_error + bool \<times> int option \<times> int option"
where
  "scan_gamepads gp num out_num out_button =
     (if num < NK_GAMEPAD_MAX then
        (case scan_buttons gp num NK_GAMEPAD_BUTTON_FIRST out_num out_button of
           Inl e \<Rightarrow> Inl e
         | Inr (True, outs) \<Rightarrow> Inr (True, outs)
         | Inr (False, _) \<Rightarrow> scan_gamepads gp (num + 1) out_num out_button)
      else Inr (False, out_num, out_button))"
  by pat_completeness auto
termination
  by (relation "measure (\<lambda>(gp, num, out_num, out_button). nat (NK_GAMEPAD_MAX - num))") auto

declare scan_gamepads.simps [simp del]

definition nk_gamepad_any_button_pressed ::
  "nk_gamepads option \<Rightarrow> int \<Rightarrow> int option \<Rightarrow> int option
     \<Rightarrow> c_error + bool \<times> int option \<times> int option"
where
  "nk_gamepad_any_button_pressed gp num out_num out_button =
     (case gp of
        None \<Rightarrow> Inr (False, out_num, out_button)
      | Some g \<Rightarrow>
          if num \<ge> NK_GAMEPAD_MAX then Inr (False, out_num, out_button)
          else if num < 0 then scan_gamepads gp 0 out_num out_button
          else if \<not> available (gamepads g num) then Inr (False, out_num, out_button)
          else scan_buttons gp num NK_GAMEPAD_BUTTON_FIRST out_num out_button)"

text \<open>
  \<^verbatim>\<open>nk_gamepad_is_button_pressed\<close> returns true for slot \<open>num\<close> and \<open>button\<close>; and \<open>(num, button)\<close>
  is in the range that \<^verbatim>\<open>nk_gamepad_any_button_pressed\<close> scans.
\<close>

abbreviation pressed_on :: "nk_gamepads \<Rightarrow> int \<Rightarrow> int \<Rightarrow> bool" where
  "pressed_on g num button \<equiv> nk_gamepad_is_button_pressed (Some g) num button = Inr True"

abbreviation scanned :: "int \<Rightarrow> int \<Rightarrow> bool" where
  "scanned num button \<equiv>
     0 \<le> num \<and> num < NK_GAMEPAD_MAX \<and>
     NK_GAMEPAD_BUTTON_FIRST \<le> button \<and> button < NK_GAMEPAD_BUTTON_LAST"

section \<open>Reachable tracker states\<close>

text \<open>
  The states a caller can bring a tracker into: a successful \<^verbatim>\<open>nk_gamepad_init\<close>, then any
  number of \<^verbatim>\<open>nk_gamepad_update\<close> and \<^verbatim>\<open>nk_gamepad_button\<close> calls. \<open>B\<close> is the set of button
  ordinals that \<^verbatim>\<open>nk_gamepad_button\<close> is called with, \<open>ih\<close> and \<open>uh\<close> are the backend's
  hooks.
\<close>

inductive reachable ::
  "int set \<Rightarrow> init_hook option \<Rightarrow> update_hook option \<Rightarrow> nk_gamepads \<Rightarrow> bool"
  for B :: "int set" and ih :: "init_hook option" and uh :: "update_hook option"
where
  after_init:
    "nk_gamepad_init ih (Some g0) c u = (True, Some g) \<Longrightarrow> reachable B ih uh g"
| after_update:
    "reachable B ih uh g \<Longrightarrow> nk_gamepad_update uh (Some g) = Some g' \<Longrightarrow> reachable B ih uh g'"
| after_button:
    "reachable B ih uh g \<Longrightarrow> button \<in> B \<Longrightarrow>
     nk_gamepad_button (Some g) num button down = Inr (Some g') \<Longrightarrow> reachable B ih uh g'"

text \<open>A mask carries only bits of button ordinals in \<open>[FIRST, LAST)\<close>.\<close>

definition button_bits_only :: "32 word \<Rightarrow> bool" where
  "button_bits_only w =
     (\<forall>n. bit w n \<longrightarrow> NK_GAMEPAD_BUTTON_FIRST \<le> int n \<and> int n < NK_GAMEPAD_BUTTON_LAST)"

definition masks_in_range :: "nk_gamepads \<Rightarrow> bool" where
  "masks_in_range g =
     (\<forall>i. 0 \<le> i \<and> i < NK_GAMEPAD_MAX \<longrightarrow>
        button_bits_only (buttons (gamepads g i)) \<and>
        button_bits_only (buttons_prev (gamepads g i)))"

text \<open>What a backend hook has to keep for the masks to stay in range.\<close>

definition init_hook_keeps_masks :: "init_hook option \<Rightarrow> bool" where
  "init_hook_keeps_masks ih =
     (case ih of None \<Rightarrow> True
      | Some h \<Rightarrow> \<forall>g. masks_in_range g \<longrightarrow> masks_in_range (snd (h g)))"

definition update_hook_keeps_masks :: "update_hook option \<Rightarrow> bool" where
  "update_hook_keeps_masks uh =
     (case uh of None \<Rightarrow> True
      | Some h \<Rightarrow> \<forall>g. masks_in_range g \<longrightarrow> masks_in_range (h g))"

section \<open>Backends and states used as examples\<close>

text \<open>
  A backend marks a slot available or not by writing the field,
  \<^verbatim>\<open>gamepads->gamepads[num].available = v\<close>; the header has no function for it.
\<close>

definition set_available :: "nk_gamepads \<Rightarrow> int \<Rightarrow> bool \<Rightarrow> nk_gamepads" where
  "set_available g num v =
     g\<lparr>gamepads := (gamepads g)(num := (gamepads g num)\<lparr>available := v\<rparr>)\<rparr>"

text \<open>
  The tracker after a call of \<^verbatim>\<open>nk_gamepad_button\<close> on it; a backend writes the masks
  through such calls.
\<close>

definition with_button :: "nk_gamepads \<Rightarrow> int \<Rightarrow> int \<Rightarrow> bool \<Rightarrow> nk_gamepads" where
  "with_button g num button down =
     (case nk_gamepad_button (Some g) num button down of
        Inr (Some g') \<Rightarrow> g'
      | _ \<Rightarrow> g)"

text \<open>
  An init hook that finds no device for slot 0 and sees button A held on slot 1, and a
  name hook that reports the name of the device.
\<close>

definition example_init_hook :: init_hook where
  "example_init_hook g =
     (True, with_button (set_available g 0 False) 1 NK_GAMEPAD_BUTTON_A True)"

definition example_update_hook :: update_hook where
  "example_update_hook g = with_button g 0 NK_GAMEPAD_BUTTON_A True"

definition example_name_hook :: name_hook where
  "example_name_hook g num = Some ''Gamepad''"

text \<open>The tracker after \<^verbatim>\<open>nk_gamepad_init\<close> without a backend.\<close>

definition fresh_tracker :: nk_gamepads where
  "fresh_tracker = the (snd (nk_gamepad_init None (Some nk_zero) 0 0))"

text \<open>The tracker after \<^verbatim>\<open>nk_gamepad_init\<close> with the example init hook.\<close>

definition example_started :: nk_gamepads where
  "example_started = the (snd (nk_gamepad_init (Some example_init_hook) (Some nk_zero) 0 0))"

text \<open>A tracker given by the masks and flags of its slots.\<close>

definition example_slot :: "bool \<Rightarrow> 32 word \<Rightarrow> 32 word \<Rightarrow> nk_gamepad" where
  "example_slot a cur prev =
     \<lparr>available = a, buttons = cur, buttons_prev = prev, name = ''Controller'', data = 0\<rparr>"

definition example_tracker :: "(int \<Rightarrow> nk_gamepad) \<Rightarrow> nk_gamepads" where
  "example_tracker slots = \<lparr>gamepads = slots, ctx = 0, user_data = 0\<rparr>"

text \<open>Only slot 2 is available, and it holds START.\<close>

definition only_slot2_start :: nk_gamepads where
  "only_slot2_start =
     example_tracker (\<lambda>i. if i = 2 then example_slot True 2048 0 else example_slot False 0 0)"

text \<open>
  Slots 0 and 1 both press X (bit 6) in this tick, slot 1 presses UP as well; slot 2
  releases A (bit 4); slot 3 is unavailable with stale masks.
\<close>

definition two_press_x :: nk_gamepads where
  "two_press_x =
     example_tracker (\<lambda>i. if i = 0 then example_slot True 64 0
                          else if i = 1 then example_slot True 65 0
                          else if i = 2 then example_slot True 0 16
                          else example_slot False 16 0)"

text \<open>
  Slot 0 has A (bit 4) clear in both masks, slot 1 holds A through both ticks; the other
  slots are unavailable.
\<close>

definition held_elsewhere :: nk_gamepads where
  "held_elsewhere =
     example_tracker (\<lambda>i. if i = 0 then example_slot True 0 0
                          else if i = 1 then example_slot True 16 16
                          else example_slot False 0 0)"

text \<open>Slot 0 presses A (bit 4) in this tick and slot 1 releases it.\<close>

definition press_and_release :: nk_gamepads where
  "press_and_release =
     example_tracker (\<lambda>i. if i = 0 then example_slot True 16 0
                          else if i = 1 then example_slot True 0 16
                          else example_slot False 0 0)"

section \<open>Flags and bits\<close>

lemma flag_defined:
  "0 \<le> button \<Longrightarrow> button < 31 \<Longrightarrow>
   NK_GAMEPAD_BUTTON_FLAG button = Inr (push_bit (nat button) 1)"
  by (simp add: NK_GAMEPAD_BUTTON_FLAG_def)

lemma flag_undefined:
  "\<not> (0 \<le> button \<and> button < 31) \<Longrightarrow> NK_GAMEPAD_BUTTON_FLAG button = Inl Undefined_Shift"
  by (simp add: NK_GAMEPAD_BUTTON_FLAG_def)

lemma flag_bit:
  "NK_GAMEPAD_BUTTON_FLAG button = Inr flag \<Longrightarrow> (w AND flag \<noteq> 0) = bit w (nat button)"
  by (auto simp: NK_GAMEPAD_BUTTON_FLAG_def bit_iff_and_push_bit_not_eq_0 split: if_splits)

lemma flag_tests:
  fixes w :: "32 word"
  assumes "0 \<le> button" "button < 31"
  shows "(w AND push_bit (nat button) 1 \<noteq> 0) = bit w (nat button)"
    and "(w AND push_bit (nat button) 1 = 0) = (\<not> bit w (nat button))"
  using flag_bit [OF flag_defined [OF assms], of w] by auto

section \<open>The loop over all slots\<close>

lemma ex_from_split:
  fixes i m :: int
  assumes "i < m"
  shows "(\<exists>j. i \<le> j \<and> j < m \<and> Q j) = (Q i \<or> (\<exists>j. i + 1 \<le> j \<and> j < m \<and> Q j))"
proof
  assume "\<exists>j. i \<le> j \<and> j < m \<and> Q j"
  then obtain j where j: "i \<le> j" "j < m" "Q j" by blast
  show "Q i \<or> (\<exists>j. i + 1 \<le> j \<and> j < m \<and> Q j)"
  proof (cases "j = i")
    case True
    with j show ?thesis by simp
  next
    case False
    with j have "i + 1 \<le> j" by simp
    with j show ?thesis by blast
  qed
next
  assume "Q i \<or> (\<exists>j. i + 1 \<le> j \<and> j < m \<and> Q j)"
  then show "\<exists>j. i \<le> j \<and> j < m \<and> Q j"
  proof
    assume "Q i"
    with assms show ?thesis by auto
  next
    assume "\<exists>j. i + 1 \<le> j \<and> j < m \<and> Q j"
    then obtain j where "i + 1 \<le> j" "j < m" "Q j" by blast
    then have "i \<le> j \<and> j < m \<and> Q j" by simp
    then show ?thesis ..
  qed
qed

lemma is_button_down_any_defined:
  assumes button: "0 \<le> button" "button < 31"
  shows "is_button_down_any g button i =
    Inr (\<exists>j. i \<le> j \<and> j < NK_GAMEPAD_MAX \<and> available (gamepads g j) \<and>
             bit (buttons (gamepads g j)) (nat button))"
proof (induction "nat (NK_GAMEPAD_MAX - i)" arbitrary: i)
  case 0
  then have "\<not> i < NK_GAMEPAD_MAX" by simp
  then show ?case by (subst is_button_down_any.simps) auto
next
  case (Suc n)
  then have lt: "i < NK_GAMEPAD_MAX" and n: "n = nat (NK_GAMEPAD_MAX - (i + 1))" by linarith+
  note IH = Suc.hyps(1) [OF n]
  show ?case
    unfolding ex_from_split [OF lt, of "\<lambda>j. available (gamepads g j) \<and>
      bit (buttons (gamepads g j)) (nat button)"]
    by (subst is_button_down_any.simps)
      (auto simp: lt IH flag_defined [OF button] flag_tests [OF button]
         simp del: push_bit_of_1)
qed

lemma is_button_pressed_any_defined:
  assumes button: "0 \<le> button" "button < 31"
  shows "is_button_pressed_any g button i =
    Inr (\<exists>j. i \<le> j \<and> j < NK_GAMEPAD_MAX \<and> available (gamepads g j) \<and>
             \<not> bit (buttons_prev (gamepads g j)) (nat button) \<and>
             bit (buttons (gamepads g j)) (nat button))"
proof (induction "nat (NK_GAMEPAD_MAX - i)" arbitrary: i)
  case 0
  then have "\<not> i < NK_GAMEPAD_MAX" by simp
  then show ?case by (subst is_button_pressed_any.simps) auto
next
  case (Suc n)
  then have lt: "i < NK_GAMEPAD_MAX" and n: "n = nat (NK_GAMEPAD_MAX - (i + 1))" by linarith+
  note IH = Suc.hyps(1) [OF n]
  show ?case
    unfolding ex_from_split [OF lt, of "\<lambda>j. available (gamepads g j) \<and>
      \<not> bit (buttons_prev (gamepads g j)) (nat button) \<and>
      bit (buttons (gamepads g j)) (nat button)"]
    by (subst is_button_pressed_any.simps)
      (auto simp: lt IH flag_defined [OF button] flag_tests [OF button]
         simp del: push_bit_of_1)
qed

lemma is_button_released_any_defined:
  assumes button: "0 \<le> button" "button < 31"
  shows "is_button_released_any g button i =
    Inr (\<exists>j. i \<le> j \<and> j < NK_GAMEPAD_MAX \<and> available (gamepads g j) \<and>
             bit (buttons_prev (gamepads g j)) (nat button) \<and>
             \<not> bit (buttons (gamepads g j)) (nat button))"
proof (induction "nat (NK_GAMEPAD_MAX - i)" arbitrary: i)
  case 0
  then have "\<not> i < NK_GAMEPAD_MAX" by simp
  then show ?case by (subst is_button_released_any.simps) auto
next
  case (Suc n)
  then have lt: "i < NK_GAMEPAD_MAX" and n: "n = nat (NK_GAMEPAD_MAX - (i + 1))" by linarith+
  note IH = Suc.hyps(1) [OF n]
  show ?case
    unfolding ex_from_split [OF lt, of "\<lambda>j. available (gamepads g j) \<and>
      bit (buttons_prev (gamepads g j)) (nat button) \<and>
      \<not> bit (buttons (gamepads g j)) (nat button)"]
    by (subst is_button_released_any.simps)
      (auto simp: lt IH flag_defined [OF button] flag_tests [OF button]
         simp del: push_bit_of_1)
qed

lemma is_button_down_defined:
  assumes button: "0 \<le> button" "button < 31"
  shows "nk_gamepad_is_button_down (Some g) num button =
     Inr (if num < 0
          then \<exists>i. 0 \<le> i \<and> i < NK_GAMEPAD_MAX \<and> available (gamepads g i) \<and>
                   bit (buttons (gamepads g i)) (nat button)
          else num < NK_GAMEPAD_MAX \<and> available (gamepads g num) \<and>
               bit (buttons (gamepads g num)) (nat button))"
  by (simp add: nk_gamepad_is_button_down_def is_button_down_any_defined [OF button]
      flag_defined [OF button] flag_tests [OF button] del: push_bit_of_1)

lemma is_button_pressed_defined:
  assumes button: "0 \<le> button" "button < 31"
  shows "nk_gamepad_is_button_pressed (Some g) num button =
     Inr (if num < 0
          then \<exists>i. 0 \<le> i \<and> i < NK_GAMEPAD_MAX \<and> available (gamepads g i) \<and>
                   \<not> bit (buttons_prev (gamepads g i)) (nat button) \<and>
                   bit (buttons (gamepads g i)) (nat button)
          else num < NK_GAMEPAD_MAX \<and> available (gamepads g num) \<and>
               \<not> bit (buttons_prev (gamepads g num)) (nat button) \<and>
               bit (buttons (gamepads g num)) (nat button))"
  by (simp add: nk_gamepad_is_button_pressed_def is_button_pressed_any_defined [OF button]
      flag_defined [OF button] flag_tests [OF button] del: push_bit_of_1)

lemma is_button_released_defined:
  assumes button: "0 \<le> button" "button < 31"
  shows "nk_gamepad_is_button_released (Some g) num button =
     Inr (if num < 0
          then \<exists>i. 0 \<le> i \<and> i < NK_GAMEPAD_MAX \<and> available (gamepads g i) \<and>
                   bit (buttons_prev (gamepads g i)) (nat button) \<and>
                   \<not> bit (buttons (gamepads g i)) (nat button)
          else num < NK_GAMEPAD_MAX \<and> available (gamepads g num) \<and>
               bit (buttons_prev (gamepads g num)) (nat button) \<and>
               \<not> bit (buttons (gamepads g num)) (nat button))"
  by (auto simp add: nk_gamepad_is_button_released_def is_button_released_any_defined [OF button]
      flag_defined [OF button] flag_tests [OF button] simp del: push_bit_of_1)

lemma pressed_released_exclusive:
  assumes "0 \<le> num"
  shows "\<not> (nk_gamepad_is_button_pressed gp num button = Inr True \<and>
            nk_gamepad_is_button_released gp num button = Inr True)"
proof (cases gp)
  case None
  then show ?thesis by (simp add: nk_gamepad_is_button_pressed_def)
next
  case (Some g)
  with assms show ?thesis
    by (cases "NK_GAMEPAD_BUTTON_FLAG button")
      (auto simp add: nk_gamepad_is_button_pressed_def nk_gamepad_is_button_released_def)
qed

text \<open>Where the flag is undefined, the loop of a query never returns true.\<close>

lemma is_button_pressed_any_undefined:
  assumes "\<not> (0 \<le> button \<and> button < 31)"
  shows "is_button_pressed_any g button i \<noteq> Inr True"
proof (induction "nat (NK_GAMEPAD_MAX - i)" arbitrary: i)
  case 0
  then have "\<not> i < NK_GAMEPAD_MAX" by simp
  then show ?case by (subst is_button_pressed_any.simps) simp
next
  case (Suc n)
  then have lt: "i < NK_GAMEPAD_MAX" and n: "n = nat (NK_GAMEPAD_MAX - (i + 1))" by linarith+
  note IH = Suc.hyps(1) [OF n]
  show ?case
    by (subst is_button_pressed_any.simps) (simp add: lt IH flag_undefined [OF assms])
qed

text \<open>
  With a negative \<open>num\<close>, two true answers come from two different slots, each of which
  gives its answer when asked alone.
\<close>

lemma pressed_released_any_distinct:
  assumes num: "num < 0"
    and pressed: "nk_gamepad_is_button_pressed (Some g) num button = Inr True"
    and released: "nk_gamepad_is_button_released (Some g) num button = Inr True"
  shows "\<exists>i j. i \<noteq> j \<and> 0 \<le> i \<and> i < NK_GAMEPAD_MAX \<and> 0 \<le> j \<and> j < NK_GAMEPAD_MAX \<and>
      nk_gamepad_is_button_pressed (Some g) i button = Inr True \<and>
      nk_gamepad_is_button_released (Some g) j button = Inr True"
proof -
  have button: "0 \<le> button" "button < 31"
    using is_button_pressed_any_undefined [of button g 0] pressed num
    by (auto simp add: nk_gamepad_is_button_pressed_def)
  from pressed num obtain i where i: "0 \<le> i" "i < NK_GAMEPAD_MAX" "available (gamepads g i)"
    "\<not> bit (buttons_prev (gamepads g i)) (nat button)" "bit (buttons (gamepads g i)) (nat button)"
    unfolding is_button_pressed_defined [OF button] by auto
  from released num obtain j where j: "0 \<le> j" "j < NK_GAMEPAD_MAX" "available (gamepads g j)"
    "bit (buttons_prev (gamepads g j)) (nat button)" "\<not> bit (buttons (gamepads g j)) (nat button)"
    unfolding is_button_released_defined [OF button] by auto
  from i(5) j(5) have "i \<noteq> j" by auto
  moreover from i have "nk_gamepad_is_button_pressed (Some g) i button = Inr True"
    unfolding is_button_pressed_defined [OF button] by simp
  moreover from j have "nk_gamepad_is_button_released (Some g) j button = Inr True"
    unfolding is_button_released_defined [OF button] by simp
  ultimately show ?thesis using i(1,2) j(1,2) by blast
qed

lemmas example_defs =
  example_tracker_def example_slot_def NK_GAMEPAD_MAX_def
  NK_GAMEPAD_BUTTON_FIRST_def NK_GAMEPAD_BUTTON_LAST_def

lemmas button_defs =
  NK_GAMEPAD_BUTTON_UP_def NK_GAMEPAD_BUTTON_DOWN_def NK_GAMEPAD_BUTTON_LEFT_def
  NK_GAMEPAD_BUTTON_RIGHT_def NK_GAMEPAD_BUTTON_A_def NK_GAMEPAD_BUTTON_B_def
  NK_GAMEPAD_BUTTON_X_def NK_GAMEPAD_BUTTON_Y_def NK_GAMEPAD_BUTTON_LB_def
  NK_GAMEPAD_BUTTON_RB_def NK_GAMEPAD_BUTTON_BACK_def NK_GAMEPAD_BUTTON_START_def

section \<open>Button queries\<close>

text \<open>
  C7. \<^verbatim>\<open>nk_gamepad_is_button_down\<close> returns false on a \<^verbatim>\<open>NULL\<close> tracker. On a tracker, for
  every button ordinal whose flag is defined (all of the enumeration are): with a negative
  \<open>num\<close> it returns true iff at least one available slot has the button's bit set in
  \<open>buttons\<close>; with a non-negative \<open>num\<close> it returns false when \<open>num \<ge> NK_GAMEPAD_MAX\<close> or the
  slot is unavailable, and the bit test on that slot's \<open>buttons\<close> otherwise.
\<close>

theorem is_button_down_spec:
  "nk_gamepad_is_button_down None num button = Inr False \<and>
   (0 \<le> button \<and> button < 31 \<longrightarrow>
      nk_gamepad_is_button_down (Some g) num button =
        Inr (if num < 0
             then \<exists>i. 0 \<le> i \<and> i < NK_GAMEPAD_MAX \<and> available (gamepads g i) \<and>
                      bit (buttons (gamepads g i)) (nat button)
             else num < NK_GAMEPAD_MAX \<and> available (gamepads g num) \<and>
                  bit (buttons (gamepads g num)) (nat button)))"
  using is_button_down_defined [of button g num]
  by (simp add: nk_gamepad_is_button_down_def)

theorem is_button_down_spec_witness:
  "nk_gamepad_is_button_down (Some only_slot2_start) (- 1) NK_GAMEPAD_BUTTON_START = Inr True \<and>
   nk_gamepad_is_button_down (Some only_slot2_start) (- 1) NK_GAMEPAD_BUTTON_BACK = Inr False \<and>
   nk_gamepad_is_button_down (Some only_slot2_start) 2 NK_GAMEPAD_BUTTON_START = Inr True \<and>
   nk_gamepad_is_button_down (Some only_slot2_start) 1 NK_GAMEPAD_BUTTON_START = Inr False \<and>
   nk_gamepad_is_button_down (Some only_slot2_start) 4 NK_GAMEPAD_BUTTON_START = Inr False"
proof -
  have ex: "\<exists>i. 0 \<le> i \<and> i < NK_GAMEPAD_MAX \<and> available (gamepads only_slot2_start i) \<and>
      bit (buttons (gamepads only_slot2_start i)) (nat NK_GAMEPAD_BUTTON_START)"
    by (rule exI [of _ 2]) (simp add: only_slot2_start_def example_defs button_defs)
  show ?thesis
    using ex
      is_button_down_spec [of "- 1" NK_GAMEPAD_BUTTON_START only_slot2_start]
      is_button_down_spec [of "- 1" NK_GAMEPAD_BUTTON_BACK only_slot2_start]
      is_button_down_spec [of 2 NK_GAMEPAD_BUTTON_START only_slot2_start]
      is_button_down_spec [of 1 NK_GAMEPAD_BUTTON_START only_slot2_start]
      is_button_down_spec [of 4 NK_GAMEPAD_BUTTON_START only_slot2_start]
    by (simp add: only_slot2_start_def example_defs button_defs)
qed

text \<open>
  C4. \<^verbatim>\<open>nk_gamepad_is_button_pressed\<close>, for every button ordinal whose flag is defined:
  with a non-negative \<open>num\<close> it returns true iff \<open>num\<close> is in range, the slot is available,
  and the button's bit is clear in \<open>buttons_prev\<close> and set in \<open>buttons\<close> of that slot; with
  a negative \<open>num\<close> it returns true iff some available slot has, in its own two masks, the
  bit clear in \<open>buttons_prev\<close> and set in \<open>buttons\<close>. On a \<^verbatim>\<open>NULL\<close> tracker it returns false.
\<close>

theorem is_button_pressed_spec:
  "nk_gamepad_is_button_pressed None num button = Inr False \<and>
   (0 \<le> button \<and> button < 31 \<longrightarrow>
      nk_gamepad_is_button_pressed (Some g) num button =
        Inr (if num < 0
             then \<exists>i. 0 \<le> i \<and> i < NK_GAMEPAD_MAX \<and> available (gamepads g i) \<and>
                      \<not> bit (buttons_prev (gamepads g i)) (nat button) \<and>
                      bit (buttons (gamepads g i)) (nat button)
             else num < NK_GAMEPAD_MAX \<and> available (gamepads g num) \<and>
                  \<not> bit (buttons_prev (gamepads g num)) (nat button) \<and>
                  bit (buttons (gamepads g num)) (nat button)))"
  using is_button_pressed_defined [of button g num]
  by (simp add: nk_gamepad_is_button_pressed_def)

text \<open>
  In \<open>held_elsewhere\<close> slot 0 has A clear in both masks and slot 1 has A set in both: the
  bit is clear in one slot's \<open>buttons_prev\<close> and set in another slot's \<open>buttons\<close>, and no
  press is reported.
\<close>

theorem is_button_pressed_spec_witness:
  "nk_gamepad_is_button_pressed (Some two_press_x) (- 1) NK_GAMEPAD_BUTTON_X = Inr True \<and>
   nk_gamepad_is_button_pressed (Some two_press_x) 1 NK_GAMEPAD_BUTTON_X = Inr True \<and>
   nk_gamepad_is_button_pressed (Some two_press_x) 2 NK_GAMEPAD_BUTTON_X = Inr False \<and>
   nk_gamepad_is_button_pressed (Some two_press_x) 3 NK_GAMEPAD_BUTTON_A = Inr False \<and>
   nk_gamepad_is_button_pressed (Some two_press_x) 4 NK_GAMEPAD_BUTTON_X = Inr False \<and>
   nk_gamepad_is_button_pressed (Some held_elsewhere) (- 1) NK_GAMEPAD_BUTTON_A = Inr False"
proof -
  have ex: "\<exists>i. 0 \<le> i \<and> i < NK_GAMEPAD_MAX \<and> available (gamepads two_press_x i) \<and>
      \<not> bit (buttons_prev (gamepads two_press_x i)) (nat NK_GAMEPAD_BUTTON_X) \<and>
      bit (buttons (gamepads two_press_x i)) (nat NK_GAMEPAD_BUTTON_X)"
    by (rule exI [of _ 0]) (simp add: two_press_x_def example_defs button_defs)
  have no: "\<not> (\<exists>i. 0 \<le> i \<and> i < NK_GAMEPAD_MAX \<and> available (gamepads held_elsewhere i) \<and>
      \<not> bit (buttons_prev (gamepads held_elsewhere i)) (nat NK_GAMEPAD_BUTTON_A) \<and>
      bit (buttons (gamepads held_elsewhere i)) (nat NK_GAMEPAD_BUTTON_A))"
    by (auto simp add: held_elsewhere_def example_defs button_defs split: if_splits)
  show ?thesis
    using ex no
      is_button_pressed_spec [of "- 1" NK_GAMEPAD_BUTTON_X two_press_x]
      is_button_pressed_spec [of 1 NK_GAMEPAD_BUTTON_X two_press_x]
      is_button_pressed_spec [of 2 NK_GAMEPAD_BUTTON_X two_press_x]
      is_button_pressed_spec [of 3 NK_GAMEPAD_BUTTON_A two_press_x]
      is_button_pressed_spec [of 4 NK_GAMEPAD_BUTTON_X two_press_x]
      is_button_pressed_spec [of "- 1" NK_GAMEPAD_BUTTON_A held_elsewhere]
    by (simp add: two_press_x_def example_defs button_defs)
qed

text \<open>
  C5, as the code has it. \<^verbatim>\<open>nk_gamepad_is_button_released\<close>, for every button ordinal
  whose flag is defined: with a non-negative \<open>num\<close> it returns true iff \<open>num\<close> is in range,
  the slot is available, and the button's bit is set in \<open>buttons_prev\<close> and clear in
  \<open>buttons\<close>. For every tracker pointer, every \<open>num \<ge> 0\<close> and every button ordinal
  whatsoever, \<^verbatim>\<open>nk_gamepad_is_button_pressed\<close> and \<^verbatim>\<open>nk_gamepad_is_button_released\<close> do not
  both return true. With a negative \<open>num\<close> they can both return true, and when they do,
  there are two different slots in range, one for which alone
  \<^verbatim>\<open>nk_gamepad_is_button_pressed\<close> returns true and one for which alone
  \<^verbatim>\<open>nk_gamepad_is_button_released\<close> does.
\<close>

theorem is_button_released_spec:
  "(0 \<le> num \<and> 0 \<le> button \<and> button < 31 \<longrightarrow>
      nk_gamepad_is_button_released (Some g) num button =
        Inr (num < NK_GAMEPAD_MAX \<and> available (gamepads g num) \<and>
             bit (buttons_prev (gamepads g num)) (nat button) \<and>
             \<not> bit (buttons (gamepads g num)) (nat button))) \<and>
   (0 \<le> num \<longrightarrow>
      \<not> (nk_gamepad_is_button_pressed gp num button = Inr True \<and>
         nk_gamepad_is_button_released gp num button = Inr True)) \<and>
   (num < 0 \<and>
    nk_gamepad_is_button_pressed (Some g) num button = Inr True \<and>
    nk_gamepad_is_button_released (Some g) num button = Inr True \<longrightarrow>
      (\<exists>i j. i \<noteq> j \<and> 0 \<le> i \<and> i < NK_GAMEPAD_MAX \<and> 0 \<le> j \<and> j < NK_GAMEPAD_MAX \<and>
         nk_gamepad_is_button_pressed (Some g) i button = Inr True \<and>
         nk_gamepad_is_button_released (Some g) j button = Inr True))"
proof (intro conjI impI)
  assume "0 \<le> num \<and> 0 \<le> button \<and> button < 31"
  then show "nk_gamepad_is_button_released (Some g) num button =
        Inr (num < NK_GAMEPAD_MAX \<and> available (gamepads g num) \<and>
             bit (buttons_prev (gamepads g num)) (nat button) \<and>
             \<not> bit (buttons (gamepads g num)) (nat button))"
    using is_button_released_defined [of button g num] by simp
next
  assume num: "0 \<le> num"
  show "\<not> (nk_gamepad_is_button_pressed gp num button = Inr True \<and>
         nk_gamepad_is_button_released gp num button = Inr True)"
    using num by (rule pressed_released_exclusive)
next
  assume "num < 0 \<and>
    nk_gamepad_is_button_pressed (Some g) num button = Inr True \<and>
    nk_gamepad_is_button_released (Some g) num button = Inr True"
  then show "\<exists>i j. i \<noteq> j \<and> 0 \<le> i \<and> i < NK_GAMEPAD_MAX \<and> 0 \<le> j \<and> j < NK_GAMEPAD_MAX \<and>
         nk_gamepad_is_button_pressed (Some g) i button = Inr True \<and>
         nk_gamepad_is_button_released (Some g) j button = Inr True"
    using pressed_released_any_distinct [of num g button] by blast
qed

text \<open>
  In \<open>press_and_release\<close> slot 0 presses A in this tick while slot 1 releases it, so with
  \<open>num = - 1\<close> both queries return true.
\<close>

lemma press_and_release_both:
  "nk_gamepad_is_button_pressed (Some press_and_release) (- 1) NK_GAMEPAD_BUTTON_A = Inr True \<and>
   nk_gamepad_is_button_released (Some press_and_release) (- 1) NK_GAMEPAD_BUTTON_A = Inr True"
proof -
  have "\<exists>i. 0 \<le> i \<and> i < NK_GAMEPAD_MAX \<and> available (gamepads press_and_release i) \<and>
      \<not> bit (buttons_prev (gamepads press_and_release i)) (nat NK_GAMEPAD_BUTTON_A) \<and>
      bit (buttons (gamepads press_and_release i)) (nat NK_GAMEPAD_BUTTON_A)"
    by (rule exI [of _ 0]) (simp add: press_and_release_def example_defs button_defs)
  moreover
  have "\<exists>i. 0 \<le> i \<and> i < NK_GAMEPAD_MAX \<and> available (gamepads press_and_release i) \<and>
      bit (buttons_prev (gamepads press_and_release i)) (nat NK_GAMEPAD_BUTTON_A) \<and>
      \<not> bit (buttons (gamepads press_and_release i)) (nat NK_GAMEPAD_BUTTON_A)"
    by (rule exI [of _ 1]) (simp add: press_and_release_def example_defs button_defs)
  ultimately show ?thesis
    using is_button_pressed_defined [of NK_GAMEPAD_BUTTON_A press_and_release "- 1"]
      is_button_released_defined [of NK_GAMEPAD_BUTTON_A press_and_release "- 1"]
    by (simp add: button_defs)
qed

text \<open>
  Slot 2 of \<open>two_press_x\<close> had A in the previous tick and has not now: released, and not
  pressed. Slot 0 presses X: not released. In \<open>press_and_release\<close>, where both queries
  return true for \<open>num = - 1\<close>, two different slots give the two answers.
\<close>

theorem is_button_released_spec_witness:
  "nk_gamepad_is_button_released (Some two_press_x) 2 NK_GAMEPAD_BUTTON_A = Inr True \<and>
   nk_gamepad_is_button_pressed (Some two_press_x) 2 NK_GAMEPAD_BUTTON_A \<noteq> Inr True \<and>
   nk_gamepad_is_button_released (Some two_press_x) 0 NK_GAMEPAD_BUTTON_X = Inr False \<and>
   nk_gamepad_is_button_released (Some two_press_x) 3 NK_GAMEPAD_BUTTON_X = Inr False \<and>
   nk_gamepad_is_button_released (Some two_press_x) 4 NK_GAMEPAD_BUTTON_A = Inr False \<and>
   (\<exists>i j. i \<noteq> j \<and> 0 \<le> i \<and> i < NK_GAMEPAD_MAX \<and> 0 \<le> j \<and> j < NK_GAMEPAD_MAX \<and>
      nk_gamepad_is_button_pressed (Some press_and_release) i NK_GAMEPAD_BUTTON_A = Inr True \<and>
      nk_gamepad_is_button_released (Some press_and_release) j NK_GAMEPAD_BUTTON_A = Inr True)"
proof -
  have slots: "nk_gamepad_is_button_released (Some two_press_x) 2 NK_GAMEPAD_BUTTON_A = Inr True \<and>
      nk_gamepad_is_button_pressed (Some two_press_x) 2 NK_GAMEPAD_BUTTON_A \<noteq> Inr True \<and>
      nk_gamepad_is_button_released (Some two_press_x) 0 NK_GAMEPAD_BUTTON_X = Inr False \<and>
      nk_gamepad_is_button_released (Some two_press_x) 3 NK_GAMEPAD_BUTTON_X = Inr False \<and>
      nk_gamepad_is_button_released (Some two_press_x) 4 NK_GAMEPAD_BUTTON_A = Inr False"
    using
      is_button_released_spec [of 2 NK_GAMEPAD_BUTTON_A two_press_x "Some two_press_x"]
      is_button_released_spec [of 0 NK_GAMEPAD_BUTTON_X two_press_x "Some two_press_x"]
      is_button_released_spec [of 3 NK_GAMEPAD_BUTTON_X two_press_x "Some two_press_x"]
      is_button_released_spec [of 4 NK_GAMEPAD_BUTTON_A two_press_x "Some two_press_x"]
    by (auto simp add: two_press_x_def example_defs button_defs)
  have "(- 1 :: int) < 0" by simp
  with press_and_release_both
    is_button_released_spec [of "- 1" NK_GAMEPAD_BUTTON_A press_and_release
      "Some press_and_release"]
  have "\<exists>i j. i \<noteq> j \<and> 0 \<le> i \<and> i < NK_GAMEPAD_MAX \<and> 0 \<le> j \<and> j < NK_GAMEPAD_MAX \<and>
      nk_gamepad_is_button_pressed (Some press_and_release) i NK_GAMEPAD_BUTTON_A = Inr True \<and>
      nk_gamepad_is_button_released (Some press_and_release) j NK_GAMEPAD_BUTTON_A = Inr True"
    by blast
  with slots show ?thesis by blast
qed

text \<open>
  Against C5 as stated, where the slot index may be negative: on \<open>press_and_release\<close>
  with \<open>num = - 1\<close> and button A, \<^verbatim>\<open>nk_gamepad_is_button_pressed\<close> and
  \<^verbatim>\<open>nk_gamepad_is_button_released\<close> both return true.
\<close>

theorem pressed_and_released_any_slot:
  "nk_gamepad_is_button_pressed (Some press_and_release) (- 1) NK_GAMEPAD_BUTTON_A = Inr True \<and>
   nk_gamepad_is_button_released (Some press_and_release) (- 1) NK_GAMEPAD_BUTTON_A = Inr True"
  by (rule press_and_release_both)

section \<open>The tick\<close>

lemma update_slots_done: "\<not> i < NK_GAMEPAD_MAX \<Longrightarrow> update_slots i g = g"
  by (subst update_slots.simps) simp

lemma update_slots_step:
  "i < NK_GAMEPAD_MAX \<Longrightarrow>
   update_slots i g =
     update_slots (i + 1)
       (if \<not> available (gamepads g i) then g
        else g\<lparr>gamepads := (gamepads g)
               (i := (gamepads g i)\<lparr>buttons_prev := buttons (gamepads g i), buttons := 0\<rparr>)\<rparr>)"
  by (subst update_slots.simps) simp

lemma update_slots_gamepads:
  "gamepads (update_slots i g) j =
     (if i \<le> j \<and> j < NK_GAMEPAD_MAX \<and> available (gamepads g j)
      then (gamepads g j)\<lparr>buttons_prev := buttons (gamepads g j), buttons := 0\<rparr>
      else gamepads g j)"
proof (induction "nat (NK_GAMEPAD_MAX - i)" arbitrary: i g)
  case 0
  then have "\<not> i < NK_GAMEPAD_MAX" by simp
  then show ?case by (auto simp add: update_slots_done)
next
  case (Suc n)
  then have lt: "i < NK_GAMEPAD_MAX" and n: "n = nat (NK_GAMEPAD_MAX - (i + 1))" by linarith+
  show ?case
    unfolding update_slots_step [OF lt] Suc.hyps(1) [OF n]
    using lt by auto
qed

lemma update_slots_rest:
  "ctx (update_slots i g) = ctx g \<and> user_data (update_slots i g) = user_data g"
proof (induction "nat (NK_GAMEPAD_MAX - i)" arbitrary: i g)
  case 0
  then have "\<not> i < NK_GAMEPAD_MAX" by simp
  then show ?case by (simp add: update_slots_done)
next
  case (Suc n)
  then have lt: "i < NK_GAMEPAD_MAX" and n: "n = nat (NK_GAMEPAD_MAX - (i + 1))" by linarith+
  show ?case
    by (simp add: update_slots_step [OF lt] Suc.hyps(1) [OF n])
qed

text \<open>
  C1. \<^verbatim>\<open>nk_gamepad_update\<close> on a \<^verbatim>\<open>NULL\<close> tracker changes nothing and runs no hook. On a
  tracker \<open>g\<close> the backend's update hook is run on the state \<open>update_slots 0 g\<close>, in which
  the rotation of every slot is complete: each available slot has
  \<open>buttons_prev\<close> equal to the old \<open>buttons\<close> and \<open>buttons = 0\<close>, with its other fields
  as before; each unavailable slot is unchanged, both masks included; \<open>ctx\<close> and
  \<open>user_data\<close> are unchanged.
\<close>

theorem update_spec:
  "nk_gamepad_update hook None = None \<and>
   nk_gamepad_update hook (Some g) = Some (run_update_hook hook (update_slots 0 g)) \<and>
   ctx (update_slots 0 g) = ctx g \<and>
   user_data (update_slots 0 g) = user_data g \<and>
   (\<forall>i. 0 \<le> i \<and> i < NK_GAMEPAD_MAX \<longrightarrow>
      (if available (gamepads g i)
       then gamepads (update_slots 0 g) i =
              (gamepads g i)\<lparr>buttons_prev := buttons (gamepads g i), buttons := 0\<rparr>
       else gamepads (update_slots 0 g) i = gamepads g i))"
  by (simp add: nk_gamepad_update_def update_slots_gamepads update_slots_rest)

text \<open>
  On \<open>two_press_x\<close>: slot 1 (available, masks 65 and 0) is rotated to 0 and 65, slot 3
  (unavailable, masks 16 and 0) keeps both masks; the example hook, which reports A
  on slot 0, then finds \<open>buttons = 0\<close> there and leaves 16.
\<close>

theorem update_spec_witness:
  "buttons_prev (gamepads (update_slots 0 two_press_x) 1) = 65 \<and>
   buttons (gamepads (update_slots 0 two_press_x) 1) = 0 \<and>
   buttons_prev (gamepads (update_slots 0 two_press_x) 3) = 0 \<and>
   buttons (gamepads (update_slots 0 two_press_x) 3) = 16 \<and>
   nk_gamepad_update (Some example_update_hook) (Some two_press_x) =
     Some (example_update_hook (update_slots 0 two_press_x)) \<and>
   buttons (gamepads (example_update_hook (update_slots 0 two_press_x)) 0) = 16 \<and>
   buttons_prev (gamepads (example_update_hook (update_slots 0 two_press_x)) 0) = 64"
proof -
  note spec = update_spec [of "Some example_update_hook" two_press_x]
  from spec have all: "\<forall>i. 0 \<le> i \<and> i < NK_GAMEPAD_MAX \<longrightarrow>
      (if available (gamepads two_press_x i)
       then gamepads (update_slots 0 two_press_x) i =
              (gamepads two_press_x i)\<lparr>buttons_prev := buttons (gamepads two_press_x i), buttons := 0\<rparr>
       else gamepads (update_slots 0 two_press_x) i = gamepads two_press_x i)"
    by blast
  have s0: "gamepads (update_slots 0 two_press_x) 0 = example_slot True 0 64"
    using all [rule_format, of 0] by (simp add: two_press_x_def example_defs)
  have s1: "gamepads (update_slots 0 two_press_x) 1 = example_slot True 0 65"
    using all [rule_format, of 1] by (simp add: two_press_x_def example_defs)
  have s3: "gamepads (update_slots 0 two_press_x) 3 = example_slot False 16 0"
    using all [rule_format, of 3] by (simp add: two_press_x_def example_defs)
  from spec have run: "nk_gamepad_update (Some example_update_hook) (Some two_press_x) =
      Some (example_update_hook (update_slots 0 two_press_x))"
    by (simp add: run_update_hook_def)
  show ?thesis
    using run
    by (simp add: s0 s1 s3 example_update_hook_def with_button_def nk_gamepad_button_def
        flag_defined example_defs button_defs)
qed

section \<open>Writing a button\<close>

lemma button_null: "nk_gamepad_button None num button down = Inr None"
  by (simp add: nk_gamepad_button_def)

lemma button_guarded:
  "num < 0 \<or> num \<ge> NK_GAMEPAD_MAX \<or> \<not> available (gamepads g num) \<Longrightarrow>
   nk_gamepad_button (Some g) num button down = Inr (Some g)"
  by (auto simp add: nk_gamepad_button_def)

lemma button_undefined:
  "0 \<le> num \<Longrightarrow> num < NK_GAMEPAD_MAX \<Longrightarrow> available (gamepads g num) \<Longrightarrow>
   \<not> (0 \<le> button \<and> button < 31) \<Longrightarrow>
   nk_gamepad_button (Some g) num button down = Inl Undefined_Shift"
  by (simp add: nk_gamepad_button_def flag_undefined)

lemma button_defined:
  "0 \<le> num \<Longrightarrow> num < NK_GAMEPAD_MAX \<Longrightarrow> available (gamepads g num) \<Longrightarrow>
   0 \<le> button \<Longrightarrow> button < 31 \<Longrightarrow>
   nk_gamepad_button (Some g) num button down =
     Inr (Some (g\<lparr>gamepads := (gamepads g)
        (num := (gamepads g num)
           \<lparr>buttons := (if down then buttons (gamepads g num) OR push_bit (nat button) 1
                        else buttons (gamepads g num) AND NOT (push_bit (nat button) 1))\<rparr>)\<rparr>))"
  by (simp add: nk_gamepad_button_def flag_defined)

text \<open>
  C9. \<^verbatim>\<open>nk_gamepad_button\<close> on a \<^verbatim>\<open>NULL\<close> tracker does nothing. On a tracker, with a slot
  index \<open>num\<close> in range and any button ordinal and \<open>down\<close> flag, either the slot is
  available and the flag of the button is undefined in C, or the call returns a tracker
  in which every slot other than \<open>num\<close>, the fields \<open>buttons_prev\<close>, \<open>available\<close>, \<open>name\<close>
  and \<open>data\<close> of slot \<open>num\<close>, and \<open>ctx\<close> and \<open>user_data\<close> are as before.
\<close>

theorem button_frame:
  "nk_gamepad_button None num button down = Inr None \<and>
   (0 \<le> num \<and> num < NK_GAMEPAD_MAX \<longrightarrow>
      (nk_gamepad_button (Some g) num button down = Inl Undefined_Shift \<and>
       available (gamepads g num) \<and> (button < 0 \<or> 31 \<le> button)) \<or>
      (\<exists>g'. nk_gamepad_button (Some g) num button down = Inr (Some g') \<and>
         (\<forall>i. i \<noteq> num \<longrightarrow> gamepads g' i = gamepads g i) \<and>
         buttons_prev (gamepads g' num) = buttons_prev (gamepads g num) \<and>
         available (gamepads g' num) = available (gamepads g num) \<and>
         name (gamepads g' num) = name (gamepads g num) \<and>
         data (gamepads g' num) = data (gamepads g num) \<and>
         ctx g' = ctx g \<and> user_data g' = user_data g))"
proof (intro conjI impI)
  show "nk_gamepad_button None num button down = Inr None"
    by (rule button_null)
next
  assume num: "0 \<le> num \<and> num < NK_GAMEPAD_MAX"
  let ?frame = "\<lambda>g'. (\<forall>i. i \<noteq> num \<longrightarrow> gamepads g' i = gamepads g i) \<and>
         buttons_prev (gamepads g' num) = buttons_prev (gamepads g num) \<and>
         available (gamepads g' num) = available (gamepads g num) \<and>
         name (gamepads g' num) = name (gamepads g num) \<and>
         data (gamepads g' num) = data (gamepads g num) \<and>
         ctx g' = ctx g \<and> user_data g' = user_data g"
  consider (off) "\<not> available (gamepads g num)"
    | (undef) "available (gamepads g num)" "\<not> (0 \<le> button \<and> button < 31)"
    | (def) "available (gamepads g num)" "0 \<le> button" "button < 31"
    by blast
  then show "(nk_gamepad_button (Some g) num button down = Inl Undefined_Shift \<and>
       available (gamepads g num) \<and> (button < 0 \<or> 31 \<le> button)) \<or>
      (\<exists>g'. nk_gamepad_button (Some g) num button down = Inr (Some g') \<and> ?frame g')"
  proof cases
    case off
    then have "nk_gamepad_button (Some g) num button down = Inr (Some g) \<and> ?frame g"
      by (simp add: button_guarded)
    then show ?thesis by blast
  next
    case undef
    with num show ?thesis
      by (simp add: button_undefined) linarith
  next
    case def
    with num show ?thesis
      by (simp add: button_defined)
  qed
qed

text \<open>
  Slot 2 of \<open>two_press_x\<close> (available, masks 0 and 16) is given button X: the call is
  defined, and afterwards slot 1 still has 65 and 0, slot 2 still has
  \<open>buttons_prev = 16\<close>, its flag and its name.
\<close>

theorem button_frame_witness:
  "nk_gamepad_button (Some two_press_x) 2 NK_GAMEPAD_BUTTON_X True \<noteq> Inl Undefined_Shift \<and>
   buttons (gamepads (with_button two_press_x 2 NK_GAMEPAD_BUTTON_X True) 1) = 65 \<and>
   buttons_prev (gamepads (with_button two_press_x 2 NK_GAMEPAD_BUTTON_X True) 2) = 16 \<and>
   available (gamepads (with_button two_press_x 2 NK_GAMEPAD_BUTTON_X True) 2) \<and>
   name (gamepads (with_button two_press_x 2 NK_GAMEPAD_BUTTON_X True) 2) = ''Controller''"
proof -
  have num: "0 \<le> (2::int) \<and> 2 < NK_GAMEPAD_MAX"
    by (simp add: NK_GAMEPAD_MAX_def)
  have "\<not> (NK_GAMEPAD_BUTTON_X < 0 \<or> 31 \<le> NK_GAMEPAD_BUTTON_X)"
    by (simp add: button_defs)
  with button_frame [of 2 NK_GAMEPAD_BUTTON_X True two_press_x] num
  obtain g' where g': "nk_gamepad_button (Some two_press_x) 2 NK_GAMEPAD_BUTTON_X True = Inr (Some g')"
    and frame: "\<forall>i. i \<noteq> 2 \<longrightarrow> gamepads g' i = gamepads two_press_x i"
      "buttons_prev (gamepads g' 2) = buttons_prev (gamepads two_press_x 2)"
      "available (gamepads g' 2) = available (gamepads two_press_x 2)"
      "name (gamepads g' 2) = name (gamepads two_press_x 2)"
    by blast
  have w: "with_button two_press_x 2 NK_GAMEPAD_BUTTON_X True = g'"
    by (simp add: with_button_def g')
  have defined: "nk_gamepad_button (Some two_press_x) 2 NK_GAMEPAD_BUTTON_X True \<noteq> Inl Undefined_Shift"
    by (simp add: g')
  from frame(1) have "gamepads g' 1 = gamepads two_press_x 1" by simp
  with defined frame(2-) show ?thesis
    unfolding w by (simp add: two_press_x_def example_defs)
qed

section \<open>Initialisation\<close>

lemma init_defaults_done: "\<not> i < NK_GAMEPAD_MAX \<Longrightarrow> init_defaults i g = g"
  by (subst init_defaults.simps) simp

lemma init_defaults_step:
  "i < NK_GAMEPAD_MAX \<Longrightarrow>
   init_defaults i g =
     init_defaults (i + 1)
       (g\<lparr>gamepads := (gamepads g)
          (i := (gamepads g i)\<lparr>available := True,
                               name := NK_GAMEPAD_NAME_PREFIX @ nk_itoa (i + 1)\<rparr>)\<rparr>)"
  by (subst init_defaults.simps) simp

lemma init_defaults_gamepads:
  "gamepads (init_defaults i g) j =
     (if i \<le> j \<and> j < NK_GAMEPAD_MAX
      then (gamepads g j)\<lparr>available := True, name := NK_GAMEPAD_NAME_PREFIX @ nk_itoa (j + 1)\<rparr>
      else gamepads g j)"
proof (induction "nat (NK_GAMEPAD_MAX - i)" arbitrary: i g)
  case 0
  then have "\<not> i < NK_GAMEPAD_MAX" by simp
  then show ?case by (auto simp add: init_defaults_done)
next
  case (Suc n)
  then have lt: "i < NK_GAMEPAD_MAX" and n: "n = nat (NK_GAMEPAD_MAX - (i + 1))" by linarith+
  show ?case
    unfolding init_defaults_step [OF lt] Suc.hyps(1) [OF n]
    using lt by auto
qed

lemma init_defaults_rest:
  "ctx (init_defaults i g) = ctx g \<and> user_data (init_defaults i g) = user_data g"
proof (induction "nat (NK_GAMEPAD_MAX - i)" arbitrary: i g)
  case 0
  then have "\<not> i < NK_GAMEPAD_MAX" by simp
  then show ?case by (simp add: init_defaults_done)
next
  case (Suc n)
  then have lt: "i < NK_GAMEPAD_MAX" and n: "n = nat (NK_GAMEPAD_MAX - (i + 1))" by linarith+
  show ?case
    by (simp add: init_defaults_step [OF lt] Suc.hyps(1) [OF n])
qed

text \<open>
  The default names, with their terminating NUL, fit into the name buffer, so the loop
  that copies the prefix and \<^verbatim>\<open>nk_itoa\<close> write inside it.
\<close>

lemma default_name_fits:
  assumes "0 \<le> i" "i < NK_GAMEPAD_MAX"
  shows "length (NK_GAMEPAD_NAME_PREFIX @ nk_itoa (i + 1)) < NK_GAMEPAD_NAME_SIZE"
proof -
  from assms have "i = 0 \<or> i = 1 \<or> i = 2 \<or> i = 3"
    unfolding NK_GAMEPAD_MAX_def by presburger
  moreover have "length (NK_GAMEPAD_NAME_PREFIX @ nk_itoa (0 + 1)) < NK_GAMEPAD_NAME_SIZE"
    by code_simp
  moreover have "length (NK_GAMEPAD_NAME_PREFIX @ nk_itoa (1 + 1)) < NK_GAMEPAD_NAME_SIZE"
    by code_simp
  moreover have "length (NK_GAMEPAD_NAME_PREFIX @ nk_itoa (2 + 1)) < NK_GAMEPAD_NAME_SIZE"
    by code_simp
  moreover have "length (NK_GAMEPAD_NAME_PREFIX @ nk_itoa (3 + 1)) < NK_GAMEPAD_NAME_SIZE"
    by code_simp
  ultimately show ?thesis by blast
qed

lemma init_seed_prev_done: "\<not> i < NK_GAMEPAD_MAX \<Longrightarrow> init_seed_prev i g = g"
  by (subst init_seed_prev.simps) simp

lemma init_seed_prev_step:
  "i < NK_GAMEPAD_MAX \<Longrightarrow>
   init_seed_prev i g =
     init_seed_prev (i + 1)
       (g\<lparr>gamepads := (gamepads g)
          (i := (gamepads g i)\<lparr>buttons_prev := buttons (gamepads g i)\<rparr>)\<rparr>)"
  by (subst init_seed_prev.simps) simp

lemma init_seed_prev_gamepads:
  "gamepads (init_seed_prev i g) j =
     (if i \<le> j \<and> j < NK_GAMEPAD_MAX
      then (gamepads g j)\<lparr>buttons_prev := buttons (gamepads g j)\<rparr>
      else gamepads g j)"
proof (induction "nat (NK_GAMEPAD_MAX - i)" arbitrary: i g)
  case 0
  then have "\<not> i < NK_GAMEPAD_MAX" by simp
  then show ?case by (auto simp add: init_seed_prev_done)
next
  case (Suc n)
  then have lt: "i < NK_GAMEPAD_MAX" and n: "n = nat (NK_GAMEPAD_MAX - (i + 1))" by linarith+
  show ?case
    unfolding init_seed_prev_step [OF lt] Suc.hyps(1) [OF n]
    using lt by auto
qed

lemma init_seed_prev_rest:
  "ctx (init_seed_prev i g) = ctx g \<and> user_data (init_seed_prev i g) = user_data g"
proof (induction "nat (NK_GAMEPAD_MAX - i)" arbitrary: i g)
  case 0
  then have "\<not> i < NK_GAMEPAD_MAX" by simp
  then show ?case by (simp add: init_seed_prev_done)
next
  case (Suc n)
  then have lt: "i < NK_GAMEPAD_MAX" and n: "n = nat (NK_GAMEPAD_MAX - (i + 1))" by linarith+
  show ?case
    by (simp add: init_seed_prev_step [OF lt] Suc.hyps(1) [OF n])
qed

lemma init_success:
  "nk_gamepad_init hook (Some g0) c u = (True, Some g) \<Longrightarrow>
   \<exists>g2. g = init_seed_prev 0 g2 \<and>
     (case hook of
        None \<Rightarrow> g2 = init_defaults 0 (nk_zero\<lparr>ctx := c, user_data := u\<rparr>)
      | Some h \<Rightarrow> h (init_defaults 0 (nk_zero\<lparr>ctx := c, user_data := u\<rparr>)) = (True, g2))"
  by (auto simp add: nk_gamepad_init_def Let_def split: option.splits prod.splits if_splits)

lemma init_without_hook:
  "nk_gamepad_init None (Some g0) c u =
     (True, Some (init_seed_prev 0 (init_defaults 0 (nk_zero\<lparr>ctx := c, user_data := u\<rparr>))))"
  by (simp add: nk_gamepad_init_def)

lemma init_with_hook:
  "h (init_defaults 0 (nk_zero\<lparr>ctx := c, user_data := u\<rparr>)) = (True, g2) \<Longrightarrow>
   nk_gamepad_init (Some h) (Some g0) c u = (True, Some (init_seed_prev 0 g2))"
  by (simp add: nk_gamepad_init_def)

lemma no_edge_when_seeded:
  assumes seeded: "\<forall>i. 0 \<le> i \<and> i < NK_GAMEPAD_MAX \<longrightarrow>
      buttons_prev (gamepads g i) = buttons (gamepads g i)"
    and button: "0 \<le> button" "button < 31"
  shows "nk_gamepad_is_button_pressed (Some g) num button = Inr False"
    and "nk_gamepad_is_button_released (Some g) num button = Inr False"
proof -
  have "\<not> (\<exists>i. 0 \<le> i \<and> i < NK_GAMEPAD_MAX \<and> available (gamepads g i) \<and>
            \<not> bit (buttons_prev (gamepads g i)) (nat button) \<and>
            bit (buttons (gamepads g i)) (nat button))"
    using seeded by auto
  moreover have "0 \<le> num \<and> num < NK_GAMEPAD_MAX \<longrightarrow>
      buttons_prev (gamepads g num) = buttons (gamepads g num)"
    using seeded by blast
  ultimately show "nk_gamepad_is_button_pressed (Some g) num button = Inr False"
    unfolding is_button_pressed_defined [OF button] by auto
  have "\<not> (\<exists>i. 0 \<le> i \<and> i < NK_GAMEPAD_MAX \<and> available (gamepads g i) \<and>
            bit (buttons_prev (gamepads g i)) (nat button) \<and>
            \<not> bit (buttons (gamepads g i)) (nat button))"
    using seeded by auto
  moreover have "0 \<le> num \<and> num < NK_GAMEPAD_MAX \<longrightarrow>
      buttons_prev (gamepads g num) = buttons (gamepads g num)"
    using seeded by blast
  ultimately show "nk_gamepad_is_button_released (Some g) num button = Inr False"
    unfolding is_button_released_defined [OF button] by auto
qed

text \<open>
  C2, as the code has it. After any successful \<^verbatim>\<open>nk_gamepad_init\<close>, whatever the backend's
  init hook did, every slot has \<open>buttons_prev = buttons\<close>, and for every \<open>num\<close> (a slot
  index or negative) and every button ordinal in \<open>[FIRST, LAST)\<close> both
  \<^verbatim>\<open>nk_gamepad_is_button_pressed\<close> and \<^verbatim>\<open>nk_gamepad_is_button_released\<close> return false.
  Without an init hook, \<^verbatim>\<open>nk_gamepad_init\<close> on a tracker succeeds, and every slot is
  available with both masks zero.
\<close>

theorem init_spec:
  "(nk_gamepad_init hook (Some g0) c u = (True, Some g) \<longrightarrow>
      (\<forall>i. 0 \<le> i \<and> i < NK_GAMEPAD_MAX \<longrightarrow>
         buttons_prev (gamepads g i) = buttons (gamepads g i)) \<and>
      (\<forall>num button. NK_GAMEPAD_BUTTON_FIRST \<le> button \<and> button < NK_GAMEPAD_BUTTON_LAST \<longrightarrow>
         nk_gamepad_is_button_pressed (Some g) num button = Inr False \<and>
         nk_gamepad_is_button_released (Some g) num button = Inr False)) \<and>
   (\<exists>g1. nk_gamepad_init None (Some g0) c u = (True, Some g1) \<and>
      (\<forall>i. 0 \<le> i \<and> i < NK_GAMEPAD_MAX \<longrightarrow>
         available (gamepads g1 i) \<and> buttons (gamepads g1 i) = 0 \<and>
         buttons_prev (gamepads g1 i) = 0))"
proof (intro conjI impI)
  assume ok: "nk_gamepad_init hook (Some g0) c u = (True, Some g)"
  then obtain g2 where g: "g = init_seed_prev 0 g2"
    using init_success by blast
  show seeded: "\<forall>i. 0 \<le> i \<and> i < NK_GAMEPAD_MAX \<longrightarrow>
      buttons_prev (gamepads g i) = buttons (gamepads g i)"
    by (simp add: g init_seed_prev_gamepads)
  show "\<forall>num button. NK_GAMEPAD_BUTTON_FIRST \<le> button \<and> button < NK_GAMEPAD_BUTTON_LAST \<longrightarrow>
      nk_gamepad_is_button_pressed (Some g) num button = Inr False \<and>
      nk_gamepad_is_button_released (Some g) num button = Inr False"
  proof (intro allI impI)
    fix num button :: int
    assume "NK_GAMEPAD_BUTTON_FIRST \<le> button \<and> button < NK_GAMEPAD_BUTTON_LAST"
    then have "0 \<le> button" "button < 31"
      by (simp_all add: NK_GAMEPAD_BUTTON_FIRST_def NK_GAMEPAD_BUTTON_LAST_def)
    with seeded show "nk_gamepad_is_button_pressed (Some g) num button = Inr False \<and>
        nk_gamepad_is_button_released (Some g) num button = Inr False"
      using no_edge_when_seeded [of g button num] by blast
  qed
next
  show "\<exists>g1. nk_gamepad_init None (Some g0) c u = (True, Some g1) \<and>
      (\<forall>i. 0 \<le> i \<and> i < NK_GAMEPAD_MAX \<longrightarrow>
         available (gamepads g1 i) \<and> buttons (gamepads g1 i) = 0 \<and>
         buttons_prev (gamepads g1 i) = 0)"
    unfolding init_without_hook
    by (simp add: init_seed_prev_gamepads init_defaults_gamepads nk_zero_def zero_gamepad_def)
qed

lemma example_started_eq:
  "example_started =
     init_seed_prev 0
       (with_button (set_available (init_defaults 0 (nk_zero\<lparr>ctx := 0, user_data := 0\<rparr>)) 0 False)
          1 NK_GAMEPAD_BUTTON_A True)"
  by (simp add: example_started_def nk_gamepad_init_def example_init_hook_def)

lemma example_started_slots:
  "\<not> available (gamepads example_started 0) \<and>
   available (gamepads example_started 1) \<and>
   buttons (gamepads example_started 1) = 16 \<and>
   buttons_prev (gamepads example_started 1) = 16"
  by (simp add: example_started_eq init_seed_prev_gamepads with_button_def nk_gamepad_button_def
      set_available_def init_defaults_gamepads flag_defined nk_zero_def zero_gamepad_def
      NK_GAMEPAD_MAX_def NK_GAMEPAD_BUTTON_A_def)

lemma example_started_init:
  "nk_gamepad_init (Some example_init_hook) (Some nk_zero) 0 0 = (True, Some example_started)"
  by (simp add: example_started_def nk_gamepad_init_def example_init_hook_def)

lemma fresh_tracker_init:
  "nk_gamepad_init None (Some nk_zero) 0 0 = (True, Some fresh_tracker)"
  by (simp add: fresh_tracker_def nk_gamepad_init_def)

theorem init_spec_witness:
  "nk_gamepad_init (Some example_init_hook) (Some nk_zero) 0 0 = (True, Some example_started) \<and>
   buttons_prev (gamepads example_started 1) = buttons (gamepads example_started 1) \<and>
   nk_gamepad_is_button_pressed (Some example_started) 1 NK_GAMEPAD_BUTTON_A = Inr False \<and>
   nk_gamepad_is_button_released (Some example_started) (- 1) NK_GAMEPAD_BUTTON_A = Inr False \<and>
   available (gamepads fresh_tracker 3) \<and>
   buttons (gamepads fresh_tracker 3) = 0 \<and>
   buttons_prev (gamepads fresh_tracker 3) = 0"
proof -
  note spec = init_spec [of "Some example_init_hook" nk_zero 0 0 example_started]
  from spec example_started_init
  have seeded: "\<forall>i. 0 \<le> i \<and> i < NK_GAMEPAD_MAX \<longrightarrow>
      buttons_prev (gamepads example_started i) = buttons (gamepads example_started i)"
    and quiet: "\<forall>num button.
      NK_GAMEPAD_BUTTON_FIRST \<le> button \<and> button < NK_GAMEPAD_BUTTON_LAST \<longrightarrow>
      nk_gamepad_is_button_pressed (Some example_started) num button = Inr False \<and>
      nk_gamepad_is_button_released (Some example_started) num button = Inr False"
    by blast+
  from spec fresh_tracker_init
  have fresh: "\<forall>i. 0 \<le> i \<and> i < NK_GAMEPAD_MAX \<longrightarrow>
      available (gamepads fresh_tracker i) \<and> buttons (gamepads fresh_tracker i) = 0 \<and>
      buttons_prev (gamepads fresh_tracker i) = 0"
    by auto
  have a: "NK_GAMEPAD_BUTTON_FIRST \<le> NK_GAMEPAD_BUTTON_A \<and>
      NK_GAMEPAD_BUTTON_A < NK_GAMEPAD_BUTTON_LAST"
    by (simp add: button_defs example_defs)
  show ?thesis
    using example_started_init seeded [rule_format, of 1]
      quiet [rule_format, OF a, of 1] quiet [rule_format, OF a, of "- 1"]
      fresh [rule_format, of 3]
    by (simp add: NK_GAMEPAD_MAX_def)
qed

text \<open>
  Against C2 as stated: with the example init hook, \<^verbatim>\<open>nk_gamepad_init\<close> succeeds, and
  afterwards slot 0 is not available and both masks of slot 1 are 16, the flag of A.
\<close>

theorem init_hook_counterexample:
  "nk_gamepad_init (Some example_init_hook) (Some nk_zero) 0 0 = (True, Some example_started) \<and>
   \<not> available (gamepads example_started 0) \<and>
   buttons (gamepads example_started 1) = 16 \<and>
   buttons_prev (gamepads example_started 1) = 16"
  using example_started_init example_started_slots by simp

section \<open>The bits of the masks\<close>

lemma button_bits_only_zero: "button_bits_only 0"
  by (simp add: button_bits_only_def)

lemma button_bits_only_set:
  assumes "button_bits_only w" "NK_GAMEPAD_BUTTON_FIRST \<le> button" "button < NK_GAMEPAD_BUTTON_LAST"
  shows "button_bits_only (w OR push_bit (nat button) 1)"
  using assms
  by (auto simp add: button_bits_only_def bit_or_iff bit_exp_iff NK_GAMEPAD_BUTTON_FIRST_def)

lemma button_bits_only_clear:
  assumes "button_bits_only w"
  shows "button_bits_only (w AND NOT flag)"
  using assms by (auto simp add: button_bits_only_def bit_and_iff)

lemma button_keeps_masks:
  assumes inv: "masks_in_range g"
    and button: "NK_GAMEPAD_BUTTON_FIRST \<le> button" "button < NK_GAMEPAD_BUTTON_LAST"
    and call: "nk_gamepad_button (Some g) num button down = Inr (Some g')"
  shows "masks_in_range g'"
proof (cases "num < 0 \<or> num \<ge> NK_GAMEPAD_MAX \<or> \<not> available (gamepads g num)")
  case True
  with call inv show ?thesis by (simp add: button_guarded)
next
  case False
  from button have "0 \<le> button" "button < 31"
    by (simp_all add: NK_GAMEPAD_BUTTON_FIRST_def NK_GAMEPAD_BUTTON_LAST_def)
  define v where "v = (if down then buttons (gamepads g num) OR push_bit (nat button) 1
      else buttons (gamepads g num) AND NOT (push_bit (nat button) 1))"
  from False have "0 \<le> num" "num < NK_GAMEPAD_MAX" "available (gamepads g num)"
    by simp_all
  from button_defined [OF this \<open>0 \<le> button\<close> \<open>button < 31\<close>, of down] call
  have g': "g' = g\<lparr>gamepads := (gamepads g)(num := (gamepads g num)\<lparr>buttons := v\<rparr>)\<rparr>"
    unfolding v_def by simp
  from inv False have "button_bits_only (buttons (gamepads g num))"
    by (simp add: masks_in_range_def)
  then have "button_bits_only v"
    unfolding v_def using button
    by (cases down) (simp_all only: if_True if_False button_bits_only_set button_bits_only_clear)
  with inv show ?thesis
    unfolding g' by (simp add: masks_in_range_def)
qed

lemma update_slots_keeps_masks:
  "masks_in_range g \<Longrightarrow> masks_in_range (update_slots 0 g)"
  by (simp add: masks_in_range_def update_slots_gamepads button_bits_only_zero)

lemma update_keeps_masks:
  assumes "masks_in_range g" "update_hook_keeps_masks uh"
    and "nk_gamepad_update uh (Some g) = Some g'"
  shows "masks_in_range g'"
  using assms update_slots_keeps_masks [of g]
  by (auto simp add: nk_gamepad_update_def run_update_hook_def update_hook_keeps_masks_def
      split: option.splits)

lemma init_defaults_masks:
  "masks_in_range (init_defaults 0 (nk_zero\<lparr>ctx := c, user_data := u\<rparr>))"
  by (simp add: masks_in_range_def init_defaults_gamepads nk_zero_def zero_gamepad_def
      button_bits_only_zero)

lemma init_seed_prev_keeps_masks:
  "masks_in_range g \<Longrightarrow> masks_in_range (init_seed_prev 0 g)"
  by (simp add: masks_in_range_def init_seed_prev_gamepads)

lemma init_gives_masks:
  assumes "init_hook_keeps_masks ih"
    and ok: "nk_gamepad_init ih (Some g0) c u = (True, Some g)"
  shows "masks_in_range g"
proof -
  from init_success [OF ok] obtain g2 where g: "g = init_seed_prev 0 g2"
    and g2: "case ih of
        None \<Rightarrow> g2 = init_defaults 0 (nk_zero\<lparr>ctx := c, user_data := u\<rparr>)
      | Some h \<Rightarrow> h (init_defaults 0 (nk_zero\<lparr>ctx := c, user_data := u\<rparr>)) = (True, g2)"
    by blast
  have "masks_in_range g2"
  proof (cases ih)
    case None
    with g2 show ?thesis by (simp add: init_defaults_masks)
  next
    case (Some h)
    with g2 have "snd (h (init_defaults 0 (nk_zero\<lparr>ctx := c, user_data := u\<rparr>))) = g2"
      by simp
    with assms(1) Some init_defaults_masks [where c = c and u = u] show ?thesis
      by (auto simp add: init_hook_keeps_masks_def)
  qed
  then show ?thesis
    unfolding g by (rule init_seed_prev_keeps_masks)
qed

lemma reachable_masks:
  assumes "reachable B ih uh g"
    and "B \<subseteq> {NK_GAMEPAD_BUTTON_FIRST ..< NK_GAMEPAD_BUTTON_LAST}"
    and "init_hook_keeps_masks ih" "update_hook_keeps_masks uh"
  shows "masks_in_range g"
  using assms
proof (induction rule: reachable.induct)
  case (after_init g0 c u g)
  then show ?case using init_gives_masks by blast
next
  case (after_update g g')
  then show ?case using update_keeps_masks by blast
next
  case (after_button g button num down g')
  then have "NK_GAMEPAD_BUTTON_FIRST \<le> button" "button < NK_GAMEPAD_BUTTON_LAST"
    by auto
  with after_button show ?case using button_keeps_masks by blast
qed

lemma button_writes_bit:
  assumes "0 \<le> num" "num < NK_GAMEPAD_MAX" "available (gamepads g num)"
    and "0 \<le> button" "button < 31"
  shows "\<exists>g'. nk_gamepad_button (Some g) num button down = Inr (Some g') \<and>
      bit (buttons (gamepads g' num)) (nat button) = down \<and>
      (\<forall>n. n \<noteq> nat button \<longrightarrow>
         bit (buttons (gamepads g' num)) n = bit (buttons (gamepads g num)) n)"
proof -
  from assms(4,5) have "nat button < 32" by simp
  then show ?thesis
    unfolding button_defined [OF assms]
    by (auto simp add: bit_or_iff bit_and_iff bit_not_iff bit_exp_iff dest: bit_imp_le_length)
qed

text \<open>
  C3, as the code has it. The masks of every slot carry only bits of button ordinals in
  \<open>[FIRST, LAST)\<close> in every state reached by a successful \<^verbatim>\<open>nk_gamepad_init\<close> and then
  \<^verbatim>\<open>nk_gamepad_update\<close> and \<^verbatim>\<open>nk_gamepad_button\<close> calls, provided that every button ordinal
  passed to \<^verbatim>\<open>nk_gamepad_button\<close> is in \<open>[FIRST, LAST)\<close> and that the backend's hooks keep
  the masks in range. \<^verbatim>\<open>nk_gamepad_button\<close> itself does not look at the range of the
  ordinal: on an available slot in range, for every ordinal whose flag is defined
  (\<open>0 \<le> button < 31\<close>), it makes that bit of \<open>buttons\<close> equal to \<open>down\<close> and keeps the
  other bits.
\<close>

theorem masks_in_range_reachable:
  "(reachable B ih uh g \<and> B \<subseteq> {NK_GAMEPAD_BUTTON_FIRST ..< NK_GAMEPAD_BUTTON_LAST} \<and>
    init_hook_keeps_masks ih \<and> update_hook_keeps_masks uh \<longrightarrow> masks_in_range g) \<and>
   (0 \<le> num \<and> num < NK_GAMEPAD_MAX \<and> available (gamepads s num) \<and>
    0 \<le> button \<and> button < 31 \<longrightarrow>
      (\<exists>s'. nk_gamepad_button (Some s) num button down = Inr (Some s') \<and>
         bit (buttons (gamepads s' num)) (nat button) = down \<and>
         (\<forall>n. n \<noteq> nat button \<longrightarrow>
            bit (buttons (gamepads s' num)) n = bit (buttons (gamepads s num)) n)))"
  using reachable_masks [of B ih uh g] button_writes_bit [of num s button down]
  by blast

lemma with_button_keeps_masks:
  assumes "masks_in_range g" "NK_GAMEPAD_BUTTON_FIRST \<le> button" "button < NK_GAMEPAD_BUTTON_LAST"
  shows "masks_in_range (with_button g num button down)"
proof (cases "nk_gamepad_button (Some g) num button down")
  case (Inl e)
  with assms(1) show ?thesis by (simp add: with_button_def)
next
  case (Inr r)
  show ?thesis
  proof (cases r)
    case None
    with Inr assms(1) show ?thesis by (simp add: with_button_def)
  next
    case (Some g')
    with Inr have "nk_gamepad_button (Some g) num button down = Inr (Some g')" by simp
    from button_keeps_masks [OF assms this] Inr Some show ?thesis
      by (simp add: with_button_def)
  qed
qed

lemma example_update_hook_keeps_masks:
  "update_hook_keeps_masks (Some example_update_hook)"
  by (simp add: update_hook_keeps_masks_def example_update_hook_def with_button_keeps_masks
      button_defs example_defs)

lemma fresh_tracker_slot:
  "0 \<le> i \<Longrightarrow> i < NK_GAMEPAD_MAX \<Longrightarrow>
   gamepads fresh_tracker i =
     \<lparr>available = True, buttons = 0, buttons_prev = 0,
      name = NK_GAMEPAD_NAME_PREFIX @ nk_itoa (i + 1), data = 0\<rparr>"
  by (simp add: fresh_tracker_def init_without_hook init_seed_prev_gamepads
      init_defaults_gamepads nk_zero_def zero_gamepad_def)

lemma fresh_tracker_button_last:
  "nk_gamepad_button (Some fresh_tracker) 0 NK_GAMEPAD_BUTTON_LAST True =
     Inr (Some (with_button fresh_tracker 0 NK_GAMEPAD_BUTTON_LAST True)) \<and>
   buttons (gamepads (with_button fresh_tracker 0 NK_GAMEPAD_BUTTON_LAST True) 0) = 4096"
  by (simp add: with_button_def nk_gamepad_button_def flag_defined fresh_tracker_slot
      NK_GAMEPAD_MAX_def NK_GAMEPAD_BUTTON_LAST_def)

text \<open>
  After \<^verbatim>\<open>nk_gamepad_init\<close> without a backend and one \<^verbatim>\<open>nk_gamepad_update\<close> whose hook
  reports A on slot 0, the masks are in range. And \<^verbatim>\<open>nk_gamepad_button\<close> with the ordinal
  \<open>NK_GAMEPAD_BUTTON_LAST\<close> sets bit 12 of slot 0.
\<close>

theorem masks_in_range_reachable_witness:
  "reachable {NK_GAMEPAD_BUTTON_FIRST ..< NK_GAMEPAD_BUTTON_LAST} None (Some example_update_hook)
     (example_update_hook (update_slots 0 fresh_tracker)) \<and>
   masks_in_range (example_update_hook (update_slots 0 fresh_tracker)) \<and>
   bit (buttons (gamepads (with_button fresh_tracker 0 NK_GAMEPAD_BUTTON_LAST True) 0)) 12"
proof -
  let ?B = "{NK_GAMEPAD_BUTTON_FIRST ..< NK_GAMEPAD_BUTTON_LAST}"
  let ?uh = "Some example_update_hook"
  let ?g = "example_update_hook (update_slots 0 fresh_tracker)"
  have "reachable ?B None ?uh fresh_tracker"
    using fresh_tracker_init by (rule reachable.after_init)
  moreover have "nk_gamepad_update ?uh (Some fresh_tracker) = Some ?g"
    by (simp add: nk_gamepad_update_def run_update_hook_def)
  ultimately have reach: "reachable ?B None ?uh ?g"
    by (rule reachable.after_update)
  have hooks: "init_hook_keeps_masks None" "update_hook_keeps_masks ?uh"
    by (simp_all add: init_hook_keeps_masks_def example_update_hook_keeps_masks)
  have slot: "0 \<le> (0::int) \<and> 0 < NK_GAMEPAD_MAX \<and> available (gamepads fresh_tracker 0) \<and>
      0 \<le> NK_GAMEPAD_BUTTON_LAST \<and> NK_GAMEPAD_BUTTON_LAST < 31"
    by (simp add: fresh_tracker_slot NK_GAMEPAD_MAX_def NK_GAMEPAD_BUTTON_LAST_def)
  note spec = masks_in_range_reachable [of ?B None ?uh ?g 0 fresh_tracker
      NK_GAMEPAD_BUTTON_LAST True]
  from spec reach hooks have inv: "masks_in_range ?g"
    by blast
  from spec slot obtain s' where
    s': "nk_gamepad_button (Some fresh_tracker) 0 NK_GAMEPAD_BUTTON_LAST True = Inr (Some s')"
    and b: "bit (buttons (gamepads s' 0)) (nat NK_GAMEPAD_BUTTON_LAST) = True"
    by blast
  from s' have "with_button fresh_tracker 0 NK_GAMEPAD_BUTTON_LAST True = s'"
    by (simp add: with_button_def)
  with b have "bit (buttons (gamepads (with_button fresh_tracker 0 NK_GAMEPAD_BUTTON_LAST True) 0)) 12"
    by (simp add: NK_GAMEPAD_BUTTON_LAST_def)
  with reach inv show ?thesis by blast
qed

text \<open>
  Against C3 as stated: on the tracker that \<^verbatim>\<open>nk_gamepad_init\<close> gives without a backend,
  \<^verbatim>\<open>nk_gamepad_button\<close> with \<open>NK_GAMEPAD_BUTTON_LAST\<close>, an ordinal outside \<open>[FIRST, LAST)\<close>,
  is no no-op: it returns a tracker whose slot 0 has \<open>buttons = 4096\<close>, bit 12, so a
  reachable state has a mask bit outside the range.
\<close>

theorem button_last_counterexample:
  "nk_gamepad_init None (Some nk_zero) 0 0 = (True, Some fresh_tracker) \<and>
   nk_gamepad_button (Some fresh_tracker) 0 NK_GAMEPAD_BUTTON_LAST True =
     Inr (Some (with_button fresh_tracker 0 NK_GAMEPAD_BUTTON_LAST True)) \<and>
   buttons (gamepads fresh_tracker 0) = 0 \<and>
   buttons (gamepads (with_button fresh_tracker 0 NK_GAMEPAD_BUTTON_LAST True) 0) = 4096 \<and>
   reachable UNIV None None (with_button fresh_tracker 0 NK_GAMEPAD_BUTTON_LAST True) \<and>
   \<not> masks_in_range (with_button fresh_tracker 0 NK_GAMEPAD_BUTTON_LAST True)"
proof -
  let ?g = "with_button fresh_tracker 0 NK_GAMEPAD_BUTTON_LAST True"
  have "reachable UNIV None None fresh_tracker"
    using fresh_tracker_init by (rule reachable.after_init)
  then have reach: "reachable UNIV None None ?g"
    using UNIV_I fresh_tracker_button_last [THEN conjunct1] by (rule reachable.after_button)
  have "bit (buttons (gamepads ?g 0)) 12"
    using fresh_tracker_button_last by simp
  then have "\<not> button_bits_only (buttons (gamepads ?g 0))"
    by (auto simp add: button_bits_only_def NK_GAMEPAD_BUTTON_LAST_def)
  then have "\<not> masks_in_range ?g"
    by (auto simp add: masks_in_range_def NK_GAMEPAD_MAX_def)
  with reach fresh_tracker_init fresh_tracker_button_last show ?thesis
    by (simp add: fresh_tracker_slot NK_GAMEPAD_MAX_def)
qed

section \<open>The first pressed button\<close>

lemma is_button_pressed_bool:
  "0 \<le> button \<Longrightarrow> button < NK_GAMEPAD_BUTTON_LAST \<Longrightarrow>
   \<exists>v. nk_gamepad_is_button_pressed (Some g) num button = Inr v"
  using is_button_pressed_defined [of button g num]
  by (simp add: NK_GAMEPAD_BUTTON_LAST_def)

lemma scan_buttons_done:
  "\<not> i < NK_GAMEPAD_BUTTON_LAST \<Longrightarrow>
   scan_buttons gp num i out_num out_button = Inr (False, out_num, out_button)"
  by (subst scan_buttons.simps) simp

lemma scan_buttons_hit:
  "i < NK_GAMEPAD_BUTTON_LAST \<Longrightarrow> nk_gamepad_is_button_pressed gp num i = Inr True \<Longrightarrow>
   scan_buttons gp num i out_num out_button =
     Inr (True, write_out out_num num, write_out out_button i)"
  by (subst scan_buttons.simps) simp

lemma scan_buttons_miss:
  "i < NK_GAMEPAD_BUTTON_LAST \<Longrightarrow> nk_gamepad_is_button_pressed gp num i = Inr False \<Longrightarrow>
   scan_buttons gp num i out_num out_button =
     scan_buttons gp num (i + 1) out_num out_button"
  by (subst scan_buttons.simps) simp

text \<open>
  The loop over the buttons either stops at the lowest pressed ordinal from \<open>i\<close> on, or
  finds none pressed; which of the two, and the ordinal, do not depend on the output
  pointers.
\<close>

lemma scan_buttons_spec:
  assumes "0 \<le> i"
  shows
    "(\<exists>b. i \<le> b \<and> b < NK_GAMEPAD_BUTTON_LAST \<and>
        nk_gamepad_is_button_pressed (Some g) num b = Inr True \<and>
        (\<forall>b'. i \<le> b' \<and> b' < b \<longrightarrow> nk_gamepad_is_button_pressed (Some g) num b' \<noteq> Inr True) \<and>
        (\<forall>out_num out_button. scan_buttons (Some g) num i out_num out_button =
           Inr (True, write_out out_num num, write_out out_button b))) \<or>
     ((\<forall>b. i \<le> b \<and> b < NK_GAMEPAD_BUTTON_LAST \<longrightarrow>
         nk_gamepad_is_button_pressed (Some g) num b \<noteq> Inr True) \<and>
      (\<forall>out_num out_button. scan_buttons (Some g) num i out_num out_button =
         Inr (False, out_num, out_button)))"
  using assms
proof (induction "nat (NK_GAMEPAD_BUTTON_LAST - i)" arbitrary: i)
  case 0
  then have "\<not> i < NK_GAMEPAD_BUTTON_LAST" by simp
  then show ?case by (auto simp add: scan_buttons_done)
next
  case (Suc n)
  then have lt: "i < NK_GAMEPAD_BUTTON_LAST"
    and n: "n = nat (NK_GAMEPAD_BUTTON_LAST - (i + 1))" and i1: "0 \<le> i + 1"
    by linarith+
  note IH = Suc.hyps(1) [OF n i1]
  from is_button_pressed_bool [OF \<open>0 \<le> i\<close> lt]
  obtain v where v: "nk_gamepad_is_button_pressed (Some g) num i = Inr v" by blast
  show ?case
  proof (cases v)
    case True
    with v lt have "i \<le> i \<and> i < NK_GAMEPAD_BUTTON_LAST \<and>
        nk_gamepad_is_button_pressed (Some g) num i = Inr True \<and>
        (\<forall>b'. i \<le> b' \<and> b' < i \<longrightarrow> nk_gamepad_is_button_pressed (Some g) num b' \<noteq> Inr True) \<and>
        (\<forall>out_num out_button. scan_buttons (Some g) num i out_num out_button =
           Inr (True, write_out out_num num, write_out out_button i))"
      by (auto simp add: scan_buttons_hit)
    then show ?thesis by blast
  next
    case False
    with v have miss: "nk_gamepad_is_button_pressed (Some g) num i = Inr False" by simp
    then have not_i: "nk_gamepad_is_button_pressed (Some g) num i \<noteq> Inr True" by simp
    have step: "scan_buttons (Some g) num i out_num out_button =
        scan_buttons (Some g) num (i + 1) out_num out_button" for out_num out_button
      using lt miss by (rule scan_buttons_miss)
    from IH show ?thesis
    proof
      assume "\<exists>b. i + 1 \<le> b \<and> b < NK_GAMEPAD_BUTTON_LAST \<and>
        nk_gamepad_is_button_pressed (Some g) num b = Inr True \<and>
        (\<forall>b'. i + 1 \<le> b' \<and> b' < b \<longrightarrow>
           nk_gamepad_is_button_pressed (Some g) num b' \<noteq> Inr True) \<and>
        (\<forall>out_num out_button. scan_buttons (Some g) num (i + 1) out_num out_button =
           Inr (True, write_out out_num num, write_out out_button b))"
      then obtain b where b: "i + 1 \<le> b" "b < NK_GAMEPAD_BUTTON_LAST"
        "nk_gamepad_is_button_pressed (Some g) num b = Inr True"
        and least: "\<forall>b'. i + 1 \<le> b' \<and> b' < b \<longrightarrow>
           nk_gamepad_is_button_pressed (Some g) num b' \<noteq> Inr True"
        and run: "\<forall>out_num out_button. scan_buttons (Some g) num (i + 1) out_num out_button =
           Inr (True, write_out out_num num, write_out out_button b)"
        by blast
      have "\<forall>b'. i \<le> b' \<and> b' < b \<longrightarrow> nk_gamepad_is_button_pressed (Some g) num b' \<noteq> Inr True"
      proof (intro allI impI)
        fix b' assume b': "i \<le> b' \<and> b' < b"
        show "nk_gamepad_is_button_pressed (Some g) num b' \<noteq> Inr True"
        proof (cases "b' = i")
          case True
          with not_i show ?thesis by simp
        next
          case False
          with b' have "i + 1 \<le> b' \<and> b' < b" by simp
          with least show ?thesis by blast
        qed
      qed
      moreover from b(1) have "i \<le> b" by simp
      ultimately show ?thesis
        using b(2,3) run by (auto simp add: step)
    next
      assume none: "(\<forall>b. i + 1 \<le> b \<and> b < NK_GAMEPAD_BUTTON_LAST \<longrightarrow>
         nk_gamepad_is_button_pressed (Some g) num b \<noteq> Inr True) \<and>
        (\<forall>out_num out_button. scan_buttons (Some g) num (i + 1) out_num out_button =
           Inr (False, out_num, out_button))"
      have "\<forall>b. i \<le> b \<and> b < NK_GAMEPAD_BUTTON_LAST \<longrightarrow>
         nk_gamepad_is_button_pressed (Some g) num b \<noteq> Inr True"
      proof (intro allI impI)
        fix b assume b: "i \<le> b \<and> b < NK_GAMEPAD_BUTTON_LAST"
        show "nk_gamepad_is_button_pressed (Some g) num b \<noteq> Inr True"
        proof (cases "b = i")
          case True
          with not_i show ?thesis by simp
        next
          case False
          with b have "i + 1 \<le> b \<and> b < NK_GAMEPAD_BUTTON_LAST" by simp
          with none show ?thesis by blast
        qed
      qed
      with none show ?thesis by (simp add: step)
    qed
  qed
qed

lemma scan_gamepads_done:
  "\<not> num < NK_GAMEPAD_MAX \<Longrightarrow>
   scan_gamepads gp num out_num out_button = Inr (False, out_num, out_button)"
  by (subst scan_gamepads.simps) simp

lemma scan_gamepads_hit:
  "num < NK_GAMEPAD_MAX \<Longrightarrow>
   scan_buttons gp num NK_GAMEPAD_BUTTON_FIRST out_num out_button = Inr (True, outs) \<Longrightarrow>
   scan_gamepads gp num out_num out_button = Inr (True, outs)"
  by (subst scan_gamepads.simps) simp

lemma scan_gamepads_miss:
  "num < NK_GAMEPAD_MAX \<Longrightarrow>
   scan_buttons gp num NK_GAMEPAD_BUTTON_FIRST out_num out_button = Inr (False, outs) \<Longrightarrow>
   scan_gamepads gp num out_num out_button = scan_gamepads gp (num + 1) out_num out_button"
  by (subst scan_gamepads.simps) simp

text \<open>
  The loop over the gamepads either stops at the first pressed pair in the order slot
  first, button second, or finds no pressed pair.
\<close>

lemma scan_gamepads_spec:
  assumes "0 \<le> n"
  shows
    "(\<exists>s b. n \<le> s \<and> scanned s b \<and> pressed_on g s b \<and>
        (\<forall>s' b'. n \<le> s' \<and> scanned s' b' \<and> pressed_on g s' b' \<longrightarrow>
           s < s' \<or> (s = s' \<and> b \<le> b')) \<and>
        (\<forall>out_num out_button. scan_gamepads (Some g) n out_num out_button =
           Inr (True, write_out out_num s, write_out out_button b))) \<or>
     ((\<forall>s b. n \<le> s \<and> scanned s b \<longrightarrow> \<not> pressed_on g s b) \<and>
      (\<forall>out_num out_button. scan_gamepads (Some g) n out_num out_button =
         Inr (False, out_num, out_button)))"
  using assms
proof (induction "nat (NK_GAMEPAD_MAX - n)" arbitrary: n)
  case 0
  then have "\<not> n < NK_GAMEPAD_MAX" by simp
  then show ?case by (auto simp add: scan_gamepads_done)
next
  case (Suc k)
  then have lt: "n < NK_GAMEPAD_MAX"
    and k: "k = nat (NK_GAMEPAD_MAX - (n + 1))" and n1: "0 \<le> n + 1"
    by linarith+
  note IH = Suc.hyps(1) [OF k n1]
  have first: "0 \<le> NK_GAMEPAD_BUTTON_FIRST"
    by (simp add: NK_GAMEPAD_BUTTON_FIRST_def)
  from scan_buttons_spec [OF first, of g n] show ?case
  proof
    assume "\<exists>b. NK_GAMEPAD_BUTTON_FIRST \<le> b \<and> b < NK_GAMEPAD_BUTTON_LAST \<and>
        pressed_on g n b \<and>
        (\<forall>b'. NK_GAMEPAD_BUTTON_FIRST \<le> b' \<and> b' < b \<longrightarrow> \<not> pressed_on g n b') \<and>
        (\<forall>out_num out_button.
           scan_buttons (Some g) n NK_GAMEPAD_BUTTON_FIRST out_num out_button =
             Inr (True, write_out out_num n, write_out out_button b))"
    then obtain b where b: "NK_GAMEPAD_BUTTON_FIRST \<le> b" "b < NK_GAMEPAD_BUTTON_LAST"
        "pressed_on g n b"
      and least: "\<forall>b'. NK_GAMEPAD_BUTTON_FIRST \<le> b' \<and> b' < b \<longrightarrow> \<not> pressed_on g n b'"
      and run: "\<forall>out_num out_button.
           scan_buttons (Some g) n NK_GAMEPAD_BUTTON_FIRST out_num out_button =
             Inr (True, write_out out_num n, write_out out_button b)"
      by blast
    have order: "\<forall>s' b'. n \<le> s' \<and> scanned s' b' \<and> pressed_on g s' b' \<longrightarrow>
        n < s' \<or> (n = s' \<and> b \<le> b')"
    proof (intro allI impI)
      fix s' b'
      assume a: "n \<le> s' \<and> scanned s' b' \<and> pressed_on g s' b'"
      show "n < s' \<or> (n = s' \<and> b \<le> b')"
      proof (cases "s' = n")
        case True
        with a least have "\<not> b' < b" by blast
        with True show ?thesis by simp
      next
        case False
        with a show ?thesis by simp
      qed
    qed
    have "\<forall>out_num out_button. scan_gamepads (Some g) n out_num out_button =
        Inr (True, write_out out_num n, write_out out_button b)"
      using run lt by (simp add: scan_gamepads_hit)
    with order b lt \<open>0 \<le> n\<close> show ?thesis by blast
  next
    assume none: "(\<forall>b. NK_GAMEPAD_BUTTON_FIRST \<le> b \<and> b < NK_GAMEPAD_BUTTON_LAST \<longrightarrow>
         \<not> pressed_on g n b) \<and>
      (\<forall>out_num out_button.
         scan_buttons (Some g) n NK_GAMEPAD_BUTTON_FIRST out_num out_button =
           Inr (False, out_num, out_button))"
    then have step: "scan_gamepads (Some g) n out_num out_button =
        scan_gamepads (Some g) (n + 1) out_num out_button" for out_num out_button
      using lt by (simp add: scan_gamepads_miss)
    have here: "\<not> pressed_on g s b" if "n \<le> s" "\<not> n + 1 \<le> s" "scanned s b" for s b
    proof -
      from that have "s = n" by simp
      with none that(3) show ?thesis by blast
    qed
    from IH show ?thesis
    proof
      assume "\<exists>s b. n + 1 \<le> s \<and> scanned s b \<and> pressed_on g s b \<and>
        (\<forall>s' b'. n + 1 \<le> s' \<and> scanned s' b' \<and> pressed_on g s' b' \<longrightarrow>
           s < s' \<or> (s = s' \<and> b \<le> b')) \<and>
        (\<forall>out_num out_button. scan_gamepads (Some g) (n + 1) out_num out_button =
           Inr (True, write_out out_num s, write_out out_button b))"
      then obtain s b where sb: "n + 1 \<le> s" "scanned s b" "pressed_on g s b"
        and least: "\<forall>s' b'. n + 1 \<le> s' \<and> scanned s' b' \<and> pressed_on g s' b' \<longrightarrow>
           s < s' \<or> (s = s' \<and> b \<le> b')"
        and run: "\<forall>out_num out_button. scan_gamepads (Some g) (n + 1) out_num out_button =
           Inr (True, write_out out_num s, write_out out_button b)"
        by blast
      have "\<forall>s' b'. n \<le> s' \<and> scanned s' b' \<and> pressed_on g s' b' \<longrightarrow>
           s < s' \<or> (s = s' \<and> b \<le> b')"
      proof (intro allI impI)
        fix s' b'
        assume a: "n \<le> s' \<and> scanned s' b' \<and> pressed_on g s' b'"
        with here [of s' b'] have "n + 1 \<le> s'" by blast
        with a least show "s < s' \<or> (s = s' \<and> b \<le> b')" by blast
      qed
      moreover from sb(1) have "n \<le> s" by simp
      moreover have "\<forall>out_num out_button. scan_gamepads (Some g) n out_num out_button =
           Inr (True, write_out out_num s, write_out out_button b)"
        using run by (simp add: step)
      ultimately show ?thesis using sb(2,3) by blast
    next
      assume rest: "(\<forall>s b. n + 1 \<le> s \<and> scanned s b \<longrightarrow> \<not> pressed_on g s b) \<and>
        (\<forall>out_num out_button. scan_gamepads (Some g) (n + 1) out_num out_button =
           Inr (False, out_num, out_button))"
      have "\<forall>s b. n \<le> s \<and> scanned s b \<longrightarrow> \<not> pressed_on g s b"
      proof (intro allI impI)
        fix s b
        assume a: "n \<le> s \<and> scanned s b"
        show "\<not> pressed_on g s b"
        proof (cases "n + 1 \<le> s")
          case True
          with a rest show ?thesis by blast
        next
          case False
          with a here [of s b] show ?thesis by blast
        qed
      qed
      moreover have "\<forall>out_num out_button. scan_gamepads (Some g) n out_num out_button =
           Inr (False, out_num, out_button)"
        using rest by (simp add: step)
      ultimately show ?thesis by blast
    qed
  qed
qed

lemma any_button_pressed_null:
  "nk_gamepad_any_button_pressed None num out_num out_button = Inr (False, out_num, out_button)"
  by (simp add: nk_gamepad_any_button_pressed_def)

lemma any_button_pressed_beyond:
  "NK_GAMEPAD_MAX \<le> num \<Longrightarrow>
   nk_gamepad_any_button_pressed (Some g) num out_num out_button =
     Inr (False, out_num, out_button)"
  by (simp add: nk_gamepad_any_button_pressed_def)

lemma any_button_pressed_all:
  "num < 0 \<Longrightarrow>
   nk_gamepad_any_button_pressed (Some g) num out_num out_button =
     scan_gamepads (Some g) 0 out_num out_button"
  by (simp add: nk_gamepad_any_button_pressed_def NK_GAMEPAD_MAX_def)

lemma any_button_pressed_off:
  "0 \<le> num \<Longrightarrow> num < NK_GAMEPAD_MAX \<Longrightarrow> \<not> available (gamepads g num) \<Longrightarrow>
   nk_gamepad_any_button_pressed (Some g) num out_num out_button =
     Inr (False, out_num, out_button)"
  by (simp add: nk_gamepad_any_button_pressed_def)

lemma any_button_pressed_one:
  "0 \<le> num \<Longrightarrow> num < NK_GAMEPAD_MAX \<Longrightarrow> available (gamepads g num) \<Longrightarrow>
   nk_gamepad_any_button_pressed (Some g) num out_num out_button =
     scan_buttons (Some g) num NK_GAMEPAD_BUTTON_FIRST out_num out_button"
  by (simp add: nk_gamepad_any_button_pressed_def)

text \<open>
  C6. \<^verbatim>\<open>nk_gamepad_any_button_pressed\<close> finds nothing, and writes nothing, when the tracker
  is \<^verbatim>\<open>NULL\<close> or \<open>num \<ge> NK_GAMEPAD_MAX\<close>. With a negative \<open>num\<close> it reports the pair of slot
  and button that \<^verbatim>\<open>nk_gamepad_is_button_pressed\<close> accepts and that comes first in the order
  slots ascending, then buttons ascending; it finds nothing iff no pair is accepted.
  With \<open>num\<close> in range it finds nothing if the slot is unavailable, and else reports the
  lowest button ordinal that \<^verbatim>\<open>nk_gamepad_is_button_pressed\<close> accepts on that slot, or finds
  nothing if there is none.
\<close>

theorem any_button_pressed_spec:
  "nk_gamepad_any_button_pressed None num out_num out_button =
     Inr (False, out_num, out_button) \<and>
   (NK_GAMEPAD_MAX \<le> num \<longrightarrow>
      nk_gamepad_any_button_pressed (Some g) num out_num out_button =
        Inr (False, out_num, out_button)) \<and>
   (num < 0 \<longrightarrow>
      (\<exists>s b. scanned s b \<and> pressed_on g s b \<and>
         (\<forall>s' b'. scanned s' b' \<and> pressed_on g s' b' \<longrightarrow> s < s' \<or> (s = s' \<and> b \<le> b')) \<and>
         nk_gamepad_any_button_pressed (Some g) num out_num out_button =
           Inr (True, write_out out_num s, write_out out_button b)) \<or>
      ((\<forall>s b. scanned s b \<longrightarrow> \<not> pressed_on g s b) \<and>
       nk_gamepad_any_button_pressed (Some g) num out_num out_button =
         Inr (False, out_num, out_button))) \<and>
   (0 \<le> num \<and> num < NK_GAMEPAD_MAX \<longrightarrow>
      (if \<not> available (gamepads g num)
       then nk_gamepad_any_button_pressed (Some g) num out_num out_button =
              Inr (False, out_num, out_button)
       else
         (\<exists>b. NK_GAMEPAD_BUTTON_FIRST \<le> b \<and> b < NK_GAMEPAD_BUTTON_LAST \<and> pressed_on g num b \<and>
            (\<forall>b'. NK_GAMEPAD_BUTTON_FIRST \<le> b' \<and> b' < b \<longrightarrow> \<not> pressed_on g num b') \<and>
            nk_gamepad_any_button_pressed (Some g) num out_num out_button =
              Inr (True, write_out out_num num, write_out out_button b)) \<or>
         ((\<forall>b. NK_GAMEPAD_BUTTON_FIRST \<le> b \<and> b < NK_GAMEPAD_BUTTON_LAST \<longrightarrow>
             \<not> pressed_on g num b) \<and>
          nk_gamepad_any_button_pressed (Some g) num out_num out_button =
            Inr (False, out_num, out_button))))"
proof (intro conjI impI)
  show "nk_gamepad_any_button_pressed None num out_num out_button =
      Inr (False, out_num, out_button)"
    by (rule any_button_pressed_null)
next
  assume "NK_GAMEPAD_MAX \<le> num"
  then show "nk_gamepad_any_button_pressed (Some g) num out_num out_button =
      Inr (False, out_num, out_button)"
    by (rule any_button_pressed_beyond)
next
  assume neg: "num < 0"
  have "(0::int) \<le> 0" by simp
  from scan_gamepads_spec [OF this, of g]
  show "(\<exists>s b. scanned s b \<and> pressed_on g s b \<and>
         (\<forall>s' b'. scanned s' b' \<and> pressed_on g s' b' \<longrightarrow> s < s' \<or> (s = s' \<and> b \<le> b')) \<and>
         nk_gamepad_any_button_pressed (Some g) num out_num out_button =
           Inr (True, write_out out_num s, write_out out_button b)) \<or>
      ((\<forall>s b. scanned s b \<longrightarrow> \<not> pressed_on g s b) \<and>
       nk_gamepad_any_button_pressed (Some g) num out_num out_button =
         Inr (False, out_num, out_button))"
    unfolding any_button_pressed_all [OF neg] by blast
next
  assume num: "0 \<le> num \<and> num < NK_GAMEPAD_MAX"
  have first: "0 \<le> NK_GAMEPAD_BUTTON_FIRST"
    by (simp add: NK_GAMEPAD_BUTTON_FIRST_def)
  show "if \<not> available (gamepads g num)
       then nk_gamepad_any_button_pressed (Some g) num out_num out_button =
              Inr (False, out_num, out_button)
       else
         (\<exists>b. NK_GAMEPAD_BUTTON_FIRST \<le> b \<and> b < NK_GAMEPAD_BUTTON_LAST \<and> pressed_on g num b \<and>
            (\<forall>b'. NK_GAMEPAD_BUTTON_FIRST \<le> b' \<and> b' < b \<longrightarrow> \<not> pressed_on g num b') \<and>
            nk_gamepad_any_button_pressed (Some g) num out_num out_button =
              Inr (True, write_out out_num num, write_out out_button b)) \<or>
         ((\<forall>b. NK_GAMEPAD_BUTTON_FIRST \<le> b \<and> b < NK_GAMEPAD_BUTTON_LAST \<longrightarrow>
             \<not> pressed_on g num b) \<and>
          nk_gamepad_any_button_pressed (Some g) num out_num out_button =
            Inr (False, out_num, out_button))"
  proof (cases "available (gamepads g num)")
    case False
    with num show ?thesis by (simp add: any_button_pressed_off)
  next
    case True
    with num have run: "nk_gamepad_any_button_pressed (Some g) num out_num out_button =
        scan_buttons (Some g) num NK_GAMEPAD_BUTTON_FIRST out_num out_button"
      by (simp add: any_button_pressed_one)
    from scan_buttons_spec [OF first, of g num] True show ?thesis
      unfolding run by auto
  qed
qed

text \<open>
  C10. For every tracker pointer and \<open>num\<close>, \<^verbatim>\<open>nk_gamepad_any_button_pressed\<close> is defined,
  and there are a flag \<open>found\<close>, a slot \<open>n\<close> and a button \<open>b\<close> such that for all output
  pointers the call returns \<open>found\<close>; when found, the cell of a non-\<^verbatim>\<open>NULL\<close> \<open>out_num\<close> holds
  \<open>n\<close> and that of a non-\<^verbatim>\<open>NULL\<close> \<open>out_button\<close> holds \<open>b\<close>, and a \<^verbatim>\<open>NULL\<close> pointer is not
  written through; when not found, nothing is written.
\<close>

theorem any_button_pressed_outputs:
  "\<exists>found n b. \<forall>out_num out_button.
     nk_gamepad_any_button_pressed gp num out_num out_button =
       Inr (found,
            (if found then (case out_num of None \<Rightarrow> None | Some _ \<Rightarrow> Some n) else out_num),
            (if found then (case out_button of None \<Rightarrow> None | Some _ \<Rightarrow> Some b)
             else out_button))"
proof -
  let ?shape = "\<lambda>run. \<exists>found n b. \<forall>out_num out_button.
     run out_num out_button =
       Inr (found,
            (if found then write_out out_num (n::int) else out_num),
            (if found then write_out out_button (b::int) else out_button))"
  have miss: "?shape run" if "\<forall>out_num out_button. run out_num out_button =
      Inr (False, out_num, out_button)" for run
    using that by (intro exI [of _ False]) simp
  have hit: "?shape run" if "\<forall>out_num out_button. run out_num out_button =
      Inr (True, write_out out_num n, write_out out_button b)" for run n b
    using that by (intro exI [of _ True] exI [of _ n] exI [of _ b]) simp
  have first: "0 \<le> NK_GAMEPAD_BUTTON_FIRST"
    by (simp add: NK_GAMEPAD_BUTTON_FIRST_def)
  have "?shape (nk_gamepad_any_button_pressed gp num)"
  proof (cases gp)
    case None
    show ?thesis unfolding None by (rule miss) (simp add: any_button_pressed_null)
  next
    case (Some g)
    consider (beyond) "NK_GAMEPAD_MAX \<le> num" | (all) "num < 0"
      | (off) "0 \<le> num" "num < NK_GAMEPAD_MAX" "\<not> available (gamepads g num)"
      | (one) "0 \<le> num" "num < NK_GAMEPAD_MAX" "available (gamepads g num)"
      by linarith
    then show ?thesis
    proof cases
      case beyond
      show ?thesis unfolding Some by (rule miss) (simp add: any_button_pressed_beyond beyond)
    next
      case all
      have "(0::int) \<le> 0" by simp
      from scan_gamepads_spec [OF this, of g] have "?shape (scan_gamepads (Some g) 0)"
        using miss [of "scan_gamepads (Some g) 0"] hit [of "scan_gamepads (Some g) 0"]
        by blast
      then show ?thesis unfolding Some by (simp add: any_button_pressed_all [OF all])
    next
      case off
      show ?thesis unfolding Some by (rule miss) (simp add: any_button_pressed_off off)
    next
      case one
      from scan_buttons_spec [OF first, of g num]
      have "?shape (scan_buttons (Some g) num NK_GAMEPAD_BUTTON_FIRST)"
        using miss [of "scan_buttons (Some g) num NK_GAMEPAD_BUTTON_FIRST"]
          hit [of "scan_buttons (Some g) num NK_GAMEPAD_BUTTON_FIRST"]
        by blast
      then show ?thesis unfolding Some by (simp add: any_button_pressed_one one)
    qed
  qed
  then show ?thesis unfolding write_out_def .
qed

lemma two_press_x_slot0:
  assumes "NK_GAMEPAD_BUTTON_FIRST \<le> b" "b < NK_GAMEPAD_BUTTON_LAST"
  shows "pressed_on two_press_x 0 b = (b = NK_GAMEPAD_BUTTON_X)"
proof -
  from assms have "b = 0 \<or> b = 1 \<or> b = 2 \<or> b = 3 \<or> b = 4 \<or> b = 5 \<or> b = 6 \<or> b = 7 \<or>
      b = 8 \<or> b = 9 \<or> b = 10 \<or> b = 11"
    unfolding NK_GAMEPAD_BUTTON_FIRST_def NK_GAMEPAD_BUTTON_LAST_def by presburger
  then show ?thesis
    by (elim disjE)
      (simp_all add: is_button_pressed_defined two_press_x_def example_defs button_defs)
qed

lemma two_press_x_found:
  "nk_gamepad_any_button_pressed (Some two_press_x) (- 1) out_num out_button =
     Inr (True, write_out out_num 0, write_out out_button NK_GAMEPAD_BUTTON_X)"
  by (simp add: nk_gamepad_any_button_pressed_def scan_gamepads.simps scan_buttons.simps
      is_button_pressed_defined two_press_x_def example_defs button_defs)

text \<open>
  In \<open>two_press_x\<close> slots 0 and 1 both press X, and slot 1 presses UP too. With
  \<open>num = - 1\<close> slot 0 with X is reported, though UP on slot 1 is the lower button; with
  \<open>num = 1\<close>, UP. Slot 3 is unavailable and 4 is no slot: nothing found, nothing written.
\<close>

theorem any_button_pressed_spec_witness:
  "nk_gamepad_any_button_pressed (Some two_press_x) (- 1) (Some 9) (Some 9) =
     Inr (True, Some 0, Some NK_GAMEPAD_BUTTON_X) \<and>
   nk_gamepad_any_button_pressed (Some two_press_x) 1 (Some 9) (Some 9) =
     Inr (True, Some 1, Some NK_GAMEPAD_BUTTON_UP) \<and>
   nk_gamepad_any_button_pressed (Some two_press_x) 3 (Some 9) (Some 9) =
     Inr (False, Some 9, Some 9) \<and>
   nk_gamepad_any_button_pressed (Some two_press_x) 4 (Some 9) (Some 9) =
     Inr (False, Some 9, Some 9)"
proof -
  have x: "scanned 0 NK_GAMEPAD_BUTTON_X" "pressed_on two_press_x 0 NK_GAMEPAD_BUTTON_X"
    by (simp_all add: is_button_pressed_defined two_press_x_def example_defs button_defs)
  have up: "NK_GAMEPAD_BUTTON_FIRST \<le> NK_GAMEPAD_BUTTON_UP"
    "pressed_on two_press_x 1 NK_GAMEPAD_BUTTON_UP"
    by (simp_all add: is_button_pressed_defined two_press_x_def example_defs button_defs)
  have slots: "available (gamepads two_press_x 1)" "\<not> available (gamepads two_press_x 3)"
    by (simp_all add: two_press_x_def example_defs)
  have any: "nk_gamepad_any_button_pressed (Some two_press_x) (- 1) (Some 9) (Some 9) =
      Inr (True, Some 0, Some NK_GAMEPAD_BUTTON_X)"
  proof -
    from any_button_pressed_spec [of "- 1" "Some 9" "Some 9" two_press_x] x
    obtain s b where sb: "scanned s b" "pressed_on two_press_x s b"
      and least: "\<forall>s' b'. scanned s' b' \<and> pressed_on two_press_x s' b' \<longrightarrow>
        s < s' \<or> (s = s' \<and> b \<le> b')"
      and run: "nk_gamepad_any_button_pressed (Some two_press_x) (- 1) (Some 9) (Some 9) =
        Inr (True, write_out (Some 9) s, write_out (Some 9) b)"
      by auto
    from least x have "s < 0 \<or> (s = 0 \<and> b \<le> NK_GAMEPAD_BUTTON_X)" by blast
    with sb(1) have s: "s = 0" by auto
    with sb have "b = NK_GAMEPAD_BUTTON_X" using two_press_x_slot0 [of b] by simp
    with s run show ?thesis by (simp add: write_out_def)
  qed
  have one: "nk_gamepad_any_button_pressed (Some two_press_x) 1 (Some 9) (Some 9) =
      Inr (True, Some 1, Some NK_GAMEPAD_BUTTON_UP)"
  proof -
    have "0 \<le> (1::int) \<and> 1 < NK_GAMEPAD_MAX" by (simp add: NK_GAMEPAD_MAX_def)
    with any_button_pressed_spec [of 1 "Some 9" "Some 9" two_press_x] slots(1) up
    obtain b where b: "NK_GAMEPAD_BUTTON_FIRST \<le> b"
      and least: "\<forall>b'. NK_GAMEPAD_BUTTON_FIRST \<le> b' \<and> b' < b \<longrightarrow> \<not> pressed_on two_press_x 1 b'"
      and run: "nk_gamepad_any_button_pressed (Some two_press_x) 1 (Some 9) (Some 9) =
        Inr (True, write_out (Some 9) 1, write_out (Some 9) b)"
      unfolding NK_GAMEPAD_BUTTON_UP_def NK_GAMEPAD_BUTTON_FIRST_def NK_GAMEPAD_BUTTON_LAST_def
      by auto
    from least up have "\<not> NK_GAMEPAD_BUTTON_UP < b" by blast
    with b have "b = NK_GAMEPAD_BUTTON_UP"
      by (simp add: NK_GAMEPAD_BUTTON_UP_def NK_GAMEPAD_BUTTON_FIRST_def)
    with run show ?thesis by (simp add: write_out_def)
  qed
  have off: "nk_gamepad_any_button_pressed (Some two_press_x) 3 (Some 9) (Some 9) =
      Inr (False, Some 9, Some 9)"
    using any_button_pressed_spec [of 3 "Some 9" "Some 9" two_press_x] slots(2)
    by (simp add: NK_GAMEPAD_MAX_def)
  have beyond: "nk_gamepad_any_button_pressed (Some two_press_x) 4 (Some 9) (Some 9) =
      Inr (False, Some 9, Some 9)"
    using any_button_pressed_spec [of 4 "Some 9" "Some 9" two_press_x]
    by (simp add: NK_GAMEPAD_MAX_def)
  from any one off beyond show ?thesis by simp
qed

text \<open>
  On \<open>two_press_x\<close> with \<open>num = - 1\<close> the call finds slot 0 and X whatever the output
  pointers are, and writes through those that are not \<^verbatim>\<open>NULL\<close>.
\<close>

theorem any_button_pressed_outputs_witness:
  "nk_gamepad_any_button_pressed (Some two_press_x) (- 1) None None =
     Inr (True, None, None) \<and>
   nk_gamepad_any_button_pressed (Some two_press_x) (- 1) None (Some 9) =
     Inr (True, None, Some NK_GAMEPAD_BUTTON_X) \<and>
   nk_gamepad_any_button_pressed (Some two_press_x) (- 1) (Some 9) None =
     Inr (True, Some 0, None)"
proof -
  from any_button_pressed_outputs [of "Some two_press_x" "- 1"]
  obtain found n b where run: "\<And>out_num out_button.
      nk_gamepad_any_button_pressed (Some two_press_x) (- 1) out_num out_button =
       Inr (found,
            (if found then (case out_num of None \<Rightarrow> None | Some _ \<Rightarrow> Some n) else out_num),
            (if found then (case out_button of None \<Rightarrow> None | Some _ \<Rightarrow> Some b)
             else out_button))"
    by blast
  from run [of "Some 9" "Some 9"] two_press_x_found [of "Some 9" "Some 9"]
  have "found \<and> n = 0 \<and> b = NK_GAMEPAD_BUTTON_X"
    by (cases found) (simp_all add: write_out_def)
  with run [of None None] run [of None "Some 9"] run [of "Some 9" None]
  show ?thesis by simp
qed

section \<open>Names\<close>

lemma name_null: "nk_gamepad_name hook None num = None"
  by (simp add: nk_gamepad_name_def)

lemma name_guarded:
  "num < 0 \<or> NK_GAMEPAD_MAX \<le> num \<or> \<not> available (gamepads g num) \<Longrightarrow>
   nk_gamepad_name hook (Some g) num = None"
  by (auto simp add: nk_gamepad_name_def)

lemma name_passed:
  "0 \<le> num \<Longrightarrow> num < NK_GAMEPAD_MAX \<Longrightarrow> available (gamepads g num) \<Longrightarrow>
   nk_gamepad_name hook (Some g) num =
     (case hook of None \<Rightarrow> Some (name (gamepads g num)) | Some h \<Rightarrow> h g num)"
  by (simp add: nk_gamepad_name_def)

lemma nk_itoa_1: "nk_itoa 1 = ''1''"
  by code_simp

lemma fresh_tracker_slot0:
  "available (gamepads fresh_tracker 0) \<and> name (gamepads fresh_tracker 0) = ''Controller 1''"
  by (simp add: fresh_tracker_slot NK_GAMEPAD_MAX_def NK_GAMEPAD_NAME_PREFIX_def nk_itoa_1)

text \<open>
  C8, as the code has it. \<^verbatim>\<open>nk_gamepad_name\<close> returns \<^verbatim>\<open>NULL\<close> when the tracker is \<^verbatim>\<open>NULL\<close>,
  \<open>num\<close> is outside \<open>[0, NK_GAMEPAD_MAX)\<close> or the slot is unavailable, with or without a
  backend name hook. Otherwise it returns the stored name of the slot when no name hook
  is defined, and what the hook returns when one is; so without a hook the result is
  \<^verbatim>\<open>NULL\<close> exactly in the three cases. Marking a slot unavailable keeps its stored name and
  makes the result \<^verbatim>\<open>NULL\<close>; once the slot is marked available again, the stored name is
  returned (without a hook).
\<close>

theorem name_spec:
  "nk_gamepad_name hook None num = None \<and>
   (num < 0 \<or> NK_GAMEPAD_MAX \<le> num \<or> \<not> available (gamepads g num) \<longrightarrow>
      nk_gamepad_name hook (Some g) num = None) \<and>
   (0 \<le> num \<and> num < NK_GAMEPAD_MAX \<and> available (gamepads g num) \<longrightarrow>
      nk_gamepad_name hook (Some g) num =
        (case hook of None \<Rightarrow> Some (name (gamepads g num)) | Some h \<Rightarrow> h g num)) \<and>
   ((nk_gamepad_name None (Some g) num = None) =
      (num < 0 \<or> NK_GAMEPAD_MAX \<le> num \<or> \<not> available (gamepads g num))) \<and>
   name (gamepads (set_available g num False) num) = name (gamepads g num) \<and>
   nk_gamepad_name hook (Some (set_available g num False)) num = None \<and>
   (0 \<le> num \<and> num < NK_GAMEPAD_MAX \<longrightarrow>
      nk_gamepad_name None (Some (set_available (set_available g num False) num True)) num =
        Some (name (gamepads g num)))"
proof (intro conjI impI)
  show "nk_gamepad_name hook None num = None"
    by (rule name_null)
  show "nk_gamepad_name hook (Some g) num = None"
    if "num < 0 \<or> NK_GAMEPAD_MAX \<le> num \<or> \<not> available (gamepads g num)"
    using that by (rule name_guarded)
  show "nk_gamepad_name hook (Some g) num =
      (case hook of None \<Rightarrow> Some (name (gamepads g num)) | Some h \<Rightarrow> h g num)"
    if "0 \<le> num \<and> num < NK_GAMEPAD_MAX \<and> available (gamepads g num)"
    using that by (simp add: name_passed)
  show "(nk_gamepad_name None (Some g) num = None) =
      (num < 0 \<or> NK_GAMEPAD_MAX \<le> num \<or> \<not> available (gamepads g num))"
    by (auto simp add: nk_gamepad_name_def)
  show "name (gamepads (set_available g num False) num) = name (gamepads g num)"
    by (simp add: set_available_def)
  show "nk_gamepad_name hook (Some (set_available g num False)) num = None"
    by (rule name_guarded) (simp add: set_available_def)
  show "nk_gamepad_name None (Some (set_available (set_available g num False) num True)) num =
      Some (name (gamepads g num))"
    if "0 \<le> num \<and> num < NK_GAMEPAD_MAX"
    using that by (simp add: name_passed set_available_def)
qed

text \<open>
  On the tracker that \<^verbatim>\<open>nk_gamepad_init\<close> gives without a backend: slot 0 is named
  \<open>Controller 1\<close>; slot 4 does not exist; with slot 0 marked unavailable there is no
  name, and after marking it available again the name is back.
\<close>

theorem name_spec_witness:
  "nk_gamepad_name None (Some fresh_tracker) 0 = Some ''Controller 1'' \<and>
   nk_gamepad_name None (Some fresh_tracker) 4 = None \<and>
   nk_gamepad_name None (Some fresh_tracker) (- 1) = None \<and>
   nk_gamepad_name None (Some (set_available fresh_tracker 0 False)) 0 = None \<and>
   nk_gamepad_name None
     (Some (set_available (set_available fresh_tracker 0 False) 0 True)) 0 =
     Some ''Controller 1''"
  using name_spec [of None 0 fresh_tracker] name_spec [of None 4 fresh_tracker]
    name_spec [of None "- 1" fresh_tracker]
  by (simp add: fresh_tracker_slot0 NK_GAMEPAD_MAX_def)

text \<open>
  Against C8 as stated: with a backend name hook, slot 0 of that tracker is available and
  in range, its stored name is \<open>Controller 1\<close>, and \<^verbatim>\<open>nk_gamepad_name\<close> returns the hook's
  \<open>Gamepad\<close>.
\<close>

theorem name_hook_counterexample:
  "available (gamepads fresh_tracker 0) \<and>
   name (gamepads fresh_tracker 0) = ''Controller 1'' \<and>
   nk_gamepad_name (Some example_name_hook) (Some fresh_tracker) 0 = Some ''Gamepad''"
  by (simp add: fresh_tracker_slot0 name_passed example_name_hook_def NK_GAMEPAD_MAX_def)

end
